theory Spec2Isabelle
  imports Complex_Main "HOL-Library.Word" "HOL-Library.AList"
begin

section \<open>JavaScript values\<close>

text \<open>
  The class \<^verbatim>\<open>MCPClient\<close> of the bridge service is a child-process JSON-RPC client: it
  frames the child's standard output into lines, parses each line and matches the parsed
  message against a table of pending requests.  The model works on the values the
  JavaScript works on.  A string is its sequence of UTF-16 code units, a chunk read from
  the child's pipe is a sequence of bytes.
\<close>

type_synonym byte = "8 word"
type_synonym jsstring = "16 word list"

definition str :: "string \<Rightarrow> jsstring" where
  "str = map of_char"

text \<open>
  Values as \<^verbatim>\<open>JSON.parse\<close> and property access produce them.  A number is the
  rational it denotes (the code compares and tests numbers, it never computes with
  them; a literal beyond the range of a double, which \<^verbatim>\<open>JSON.parse\<close> reads as an
  infinity, is left out).  An object is the list of its own properties.
\<close>

datatype jsval =
    JUndefined
  | JNull
  | JBool bool
  | JNum rat
  | JStr jsstring
  | JArr "jsval list"
  | JObj "(jsstring \<times> jsval) list"

text \<open>
  What can be thrown or passed to \<^verbatim>\<open>reject\<close>: \<open>Error v\<close> is \<^verbatim>\<open>new Error(v)\<close>,
  \<open>TypeError\<close> is what the runtime throws on a property read of \<^verbatim>\<open>null\<close> or
  \<^verbatim>\<open>undefined\<close>, \<open>SystemError c\<close> is an error raised by the platform (a stream or
  \<^verbatim>\<open>spawn\<close>) with code \<open>c\<close>.
\<close>

datatype js_error = Error jsval | TypeError | SystemError jsstring

text \<open>JavaScript's \<^verbatim>\<open>ToBoolean\<close>.\<close>

fun truthy :: "jsval \<Rightarrow> bool" where
  "truthy JUndefined = False"
| "truthy JNull = False"
| "truthy (JBool b) = b"
| "truthy (JNum q) = (q \<noteq> 0)"
| "truthy (JStr s) = (s \<noteq> [])"
| "truthy (JArr xs) = True"
| "truthy (JObj kvs) = True"

text \<open>The operator \<^verbatim>\<open>a || b\<close>.\<close>

definition js_or :: "jsval \<Rightarrow> jsval \<Rightarrow> jsval" where
  "js_or a b = (if truthy a then a else b)"

text \<open>
  A parameter declared with a default value, as in \<^verbatim>\<open>params = {}\<close>: the default stands
  in when the argument is missing or \<^verbatim>\<open>undefined\<close>.
\<close>

definition default_to :: "jsval \<Rightarrow> jsval \<Rightarrow> jsval" where
  "default_to d v = (if v = JUndefined then d else v)"

text \<open>
  The property read \<^verbatim>\<open>v.k\<close>, for the names the client reads (\<^verbatim>\<open>id\<close>,
  \<^verbatim>\<open>error\<close>, \<^verbatim>\<open>result\<close>, \<^verbatim>\<open>message\<close>, \<^verbatim>\<open>tools\<close>), none of which is a
  built-in property of a primitive or an array: it throws on \<^verbatim>\<open>null\<close> and
  \<^verbatim>\<open>undefined\<close>, looks the name up in an object and is \<^verbatim>\<open>undefined\<close> elsewhere.
\<close>

fun get_prop :: "jsstring \<Rightarrow> jsval \<Rightarrow> js_error + jsval" where
  "get_prop k JUndefined = Inl TypeError"
| "get_prop k JNull = Inl TypeError"
| "get_prop k (JObj kvs) = Inr (case map_of kvs k of None \<Rightarrow> JUndefined | Some v \<Rightarrow> v)"
| "get_prop k v = Inr JUndefined"

section \<open>Text: decoding, splitting, trimming\<close>

text \<open>
  \<^verbatim>\<open>String.prototype.split\<close> with a one-unit separator: the pieces between the
  separators, one more piece than there are separators.
\<close>

fun js_split :: "'a \<Rightarrow> 'a list \<Rightarrow> 'a list list" where
  "js_split d [] = [[]]"
| "js_split d (c # cs) =
     (if c = d then [] # js_split d cs
      else (case js_split d cs of [] \<Rightarrow> [[c]] | p # ps \<Rightarrow> (c # p) # ps))"

definition nl :: "16 word" where
  "nl = 0x0A"

text \<open>
  \<^verbatim>\<open>String.prototype.trim\<close> removes white space and line terminators from both ends.
\<close>

definition is_space :: "16 word \<Rightarrow> bool" where
  "is_space c \<longleftrightarrow>
     c \<in> {0x09, 0x0A, 0x0B, 0x0C, 0x0D, 0x20, 0xA0, 0x1680, 0x2028, 0x2029, 0x202F,
          0x205F, 0x3000, 0xFEFF} \<or> (0x2000 \<le> c \<and> c \<le> 0x200A)"

definition trim :: "jsstring \<Rightarrow> jsstring" where
  "trim s = rev (dropWhile is_space (rev (dropWhile is_space s)))"

text \<open>
  \<^verbatim>\<open>Buffer.prototype.toString()\<close> decodes the bytes of one chunk as UTF-8, on its own:
  a byte that cannot start or continue a character, and a character cut off by the end
  of the chunk, become U+FFFD.  The decoder keeps the code point read so far, the number
  of continuation bytes still needed and the range allowed for the next byte.
\<close>

record decoder =
  code_point :: nat
  bytes_needed :: nat
  lower_boundary :: nat
  upper_boundary :: nat

definition decoder_init :: decoder where
  "decoder_init = \<lparr>code_point = 0, bytes_needed = 0, lower_boundary = 0x80, upper_boundary = 0xBF\<rparr>"

definition utf16 :: "nat \<Rightarrow> jsstring" where
  "utf16 cp =
     (if cp < 0x10000 then [word_of_nat cp]
      else [word_of_nat (0xD800 + (cp - 0x10000) div 0x400),
            word_of_nat (0xDC00 + (cp - 0x10000) mod 0x400)])"

definition decode_lead :: "nat \<Rightarrow> jsstring \<times> decoder" where
  "decode_lead b =
     (if b \<le> 0x7F then (utf16 b, decoder_init)
      else if 0xC2 \<le> b \<and> b \<le> 0xDF then
        ([], decoder_init\<lparr>code_point := b mod 0x20, bytes_needed := 1\<rparr>)
      else if 0xE0 \<le> b \<and> b \<le> 0xEF then
        ([], decoder_init\<lparr>code_point := b mod 0x10, bytes_needed := 2,
               lower_boundary := (if b = 0xE0 then 0xA0 else 0x80),
               upper_boundary := (if b = 0xED then 0x9F else 0xBF)\<rparr>)
      else if 0xF0 \<le> b \<and> b \<le> 0xF4 then
        ([], decoder_init\<lparr>code_point := b mod 0x08, bytes_needed := 3,
               lower_boundary := (if b = 0xF0 then 0x90 else 0x80),
               upper_boundary := (if b = 0xF4 then 0x8F else 0xBF)\<rparr>)
      else ([0xFFFD], decoder_init))"

definition decode_byte :: "decoder \<Rightarrow> nat \<Rightarrow> jsstring \<times> decoder" where
  "decode_byte st b =
     (if bytes_needed st = 0 then decode_lead b
      else if lower_boundary st \<le> b \<and> b \<le> upper_boundary st then
        (let cp = code_point st * 0x40 + b mod 0x40 in
         if bytes_needed st = 1 then (utf16 cp, decoder_init)
         else ([], decoder_init\<lparr>code_point := cp, bytes_needed := bytes_needed st - 1\<rparr>))
      else (0xFFFD # fst (decode_lead b), snd (decode_lead b)))"

fun decode_from :: "decoder \<Rightarrow> byte list \<Rightarrow> jsstring" where
  "decode_from st [] = (if bytes_needed st = 0 then [] else [0xFFFD])"
| "decode_from st (b # bs) =
     fst (decode_byte st (unat b)) @ decode_from (snd (decode_byte st (unat b))) bs"

definition toString :: "byte list \<Rightarrow> jsstring" where
  "toString data = decode_from decoder_init data"

text \<open>The decoder after some bytes: it needs no further byte exactly when the bytes do
  not end inside a character.\<close>

fun decoder_after :: "decoder \<Rightarrow> byte list \<Rightarrow> decoder" where
  "decoder_after st [] = st"
| "decoder_after st (b # bs) = decoder_after (snd (decode_byte st (unat b))) bs"

section \<open>The state of a client\<close>

text \<open>
  The promise that \<^verbatim>\<open>sendRequest\<close> returns is consumed in three places of the class:
  by the \<^verbatim>\<open>.then(...).catch(...)\<close> chain of \<^verbatim>\<open>connect\<close> (the \<^verbatim>\<open>initialize\<close>
  call), by the \<^verbatim>\<open>await\<close> inside that chain (the \<^verbatim>\<open>tools/list\<close> call) and by the
  \<^verbatim>\<open>await\<close> of \<^verbatim>\<open>callTool\<close>.  The pair \<^verbatim>\<open>{ resolve, reject }\<close> stored in the
  table of pending requests is modelled by the place that waits for it.
\<close>

datatype waiter = InitializeThen | ToolsListAwait | CallToolAwait

datatype outcome = Resolved jsval | Rejected js_error

datatype signal = SIGTERM | SIGKILL

text \<open>
  The fields of the object (\<open>process\<close> tells whether \<^verbatim>\<open>this.process\<close> is set; the
  configuration only feeds \<^verbatim>\<open>spawn\<close> and is left out), the variables of the closure
  of \<^verbatim>\<open>connect\<close> (\<open>buffer\<close>, \<open>connectionTimeout\<close>), the timers that are armed,
  what the child process has been sent, the queue of promise reactions, and five history
  variables that record what the code did: \<open>settled\<close> (each call of the \<^verbatim>\<open>resolve\<close>
  or \<^verbatim>\<open>reject\<close> of a registered request), \<open>connectPromise\<close> (each call of the
  \<^verbatim>\<open>resolve\<close> or \<^verbatim>\<open>reject\<close> of \<^verbatim>\<open>connect\<close>; the first one decides the promise),
  \<open>delivered\<close> (how each \<^verbatim>\<open>callTool\<close> promise was settled), \<open>issued\<close> (each value
  taken from \<^verbatim>\<open>this.requestId++\<close>) and \<open>framed\<close> (each line handed to
  \<^verbatim>\<open>JSON.parse\<close>).  \<open>stdinError\<close> is the error that a write to the child's input
  stream would throw, if any: it belongs to the environment.  The counter
  \<^verbatim>\<open>requestId\<close> is a JavaScript number that only ever grows by one from 1; it is
  exact, and modelled as a natural number, for as long as fewer than \<open>2\<^sup>5\<^sup>3\<close> requests
  have been sent.
\<close>

record MCPClient =
  process :: bool
  connected :: bool
  requestId :: nat
  pendingRequests :: "(nat \<times> waiter) list"
  tools :: jsval
  buffer :: jsstring
  connectionTimeout :: "nat option"
  requestTimers :: "(nat \<times> nat) list"
  killTimer :: "nat option"
  stdin :: "jsval list"
  stdinError :: "js_error option"
  killed :: bool
  signals :: "signal list"
  microtasks :: "(waiter \<times> outcome) list"
  settled :: "(nat \<times> outcome) list"
  connectPromise :: "outcome list"
  delivered :: "outcome list"
  issued :: "nat list"
  framed :: "jsstring list"

definition new_MCPClient :: MCPClient where
  "new_MCPClient =
     \<lparr>process = False, connected = False, requestId = 1, pendingRequests = [],
      tools = JArr [], buffer = [], connectionTimeout = None, requestTimers = [],
      killTimer = None, stdin = [], stdinError = None, killed = False, signals = [],
      microtasks = [], settled = [], connectPromise = [], delivered = [], issued = [],
      framed = []\<rparr>"

text \<open>
  Calling \<^verbatim>\<open>resolve\<close> or \<^verbatim>\<open>reject\<close> of the request registered under \<open>i\<close>: the call is
  recorded and the reaction of the waiting place is queued as a microtask.
\<close>

definition settle :: "nat \<Rightarrow> waiter \<Rightarrow> outcome \<Rightarrow> MCPClient \<Rightarrow> MCPClient" where
  "settle i w out s =
     s\<lparr>settled := settled s @ [(i, out)], microtasks := microtasks s @ [(w, out)]\<rparr>"

text \<open>
  The keys of the table are the numbers taken from the counter.  \<^verbatim>\<open>Map.has\<close> and
  \<^verbatim>\<open>Map.get\<close> compare with SameValueZero, so a value finds an entry only if it is a
  number equal to a key.
\<close>

fun as_key :: "jsval \<Rightarrow> nat option" where
  "as_key (JNum q) = (if 0 \<le> q \<and> of_int \<lfloor>q\<rfloor> = q then Some (nat \<lfloor>q\<rfloor>) else None)"
| "as_key v = None"

definition lookup :: "(nat \<times> waiter) list \<Rightarrow> jsval \<Rightarrow> (nat \<times> waiter) option" where
  "lookup table v =
     (case as_key v of None \<Rightarrow> None
      | Some k \<Rightarrow> (case map_of table k of None \<Rightarrow> None | Some w \<Rightarrow> Some (k, w)))"

section \<open>The request multiplexer\<close>

definition handleMessage :: "jsval \<Rightarrow> MCPClient \<Rightarrow> js_error + MCPClient" where
  "handleMessage message s =
     (case get_prop (str ''id'') message of
        Inl e \<Rightarrow> Inl e
      | Inr idv \<Rightarrow>
          (if truthy idv then
             (case lookup (pendingRequests s) idv of
                None \<Rightarrow> Inr s
              | Some (k, w) \<Rightarrow>
                  (let s1 = s\<lparr>pendingRequests := AList.delete k (pendingRequests s)\<rparr> in
                   case get_prop (str ''error'') message of
                     Inl e \<Rightarrow> Inl e
                   | Inr err \<Rightarrow>
                       (if truthy err then
                          (case get_prop (str ''message'') err of
                             Inl e \<Rightarrow> Inl e
                           | Inr msg \<Rightarrow>
                               Inr (settle k w
                                 (Rejected (Error (js_or msg (JStr (str ''MCP error''))))) s1))
                        else
                          (case get_prop (str ''result'') message of
                             Inl e \<Rightarrow> Inl e
                           | Inr res \<Rightarrow> Inr (settle k w (Resolved res) s1)))))
           else Inr s))"

text \<open>
  \<^verbatim>\<open>sendRequest(method, params = {})\<close>; \<open>w\<close> is the place that waits for the promise.  The
  entry of \<open>stdin\<close> is the request whose serialisation is written, followed by a newline.
\<close>

definition sendRequest :: "jsstring \<Rightarrow> jsval \<Rightarrow> waiter \<Rightarrow> MCPClient \<Rightarrow> MCPClient" where
  "sendRequest method params w s =
     (if \<not> process s then
        s\<lparr>microtasks := microtasks s @
             [(w, Rejected (Error (JStr (str ''MCP server not connected''))))]\<rparr>
      else
        (let i = requestId s;
             request = JObj [(str ''jsonrpc'', JStr (str ''2.0'')), (str ''id'', JNum (of_nat i)),
                             (str ''method'', JStr method),
                             (str ''params'', default_to (JObj []) params)];
             s1 = s\<lparr>requestId := i + 1, issued := issued s @ [i]\<rparr>;
             s2 = s1\<lparr>pendingRequests := AList.update i w (pendingRequests s1)\<rparr>;
             s3 = s2\<lparr>requestTimers := requestTimers s2 @ [(i, 15000)]\<rparr>
         in case stdinError s3 of
              None \<Rightarrow> s3\<lparr>stdin := stdin s3 @ [request]\<rparr>
            | Some e \<Rightarrow>
                settle i w (Rejected e)
                  (s3\<lparr>pendingRequests := AList.delete i (pendingRequests s3)\<rparr>)))"

text \<open>The callback of the timer that \<^verbatim>\<open>sendRequest\<close> arms for the request \<open>i\<close>.\<close>

definition request_timeout :: "nat \<Rightarrow> MCPClient \<Rightarrow> MCPClient" where
  "request_timeout i s =
     (case map_of (pendingRequests s) i of
        None \<Rightarrow> s
      | Some w \<Rightarrow>
          settle i w (Rejected (Error (JStr (str ''Request timeout''))))
            (s\<lparr>pendingRequests := AList.delete i (pendingRequests s)\<rparr>))"

text \<open>\<^verbatim>\<open>callTool(name, arguments_obj = {})\<close>.\<close>

definition callTool :: "jsval \<Rightarrow> jsval \<Rightarrow> MCPClient \<Rightarrow> MCPClient" where
  "callTool name arguments_obj s =
     (if \<not> connected s then
        s\<lparr>delivered := delivered s @
             [Rejected (Error (JStr (str ''MCP server not connected'')))]\<rparr>
      else
        sendRequest (str ''tools/call'')
          (JObj [(str ''name'', name),
                 (str ''arguments'', default_to (JObj []) arguments_obj)]) CallToolAwait s)"

definition getTools :: "MCPClient \<Rightarrow> jsval" where
  "getTools s = tools s"

section \<open>The process and the handshake\<close>

text \<open>\<^verbatim>\<open>ChildProcess.kill\<close>, taken to deliver its signal.\<close>

definition kill :: "signal \<Rightarrow> MCPClient \<Rightarrow> MCPClient" where
  "kill sig s = s\<lparr>signals := signals s @ [sig], killed := True\<rparr>"

definition cleanup :: "MCPClient \<Rightarrow> MCPClient" where
  "cleanup s = (if process s then (kill SIGTERM s)\<lparr>killTimer := Some 5000\<rparr> else s)"

definition kill_timeout :: "MCPClient \<Rightarrow> MCPClient" where
  "kill_timeout s = (if process s \<and> \<not> killed s then kill SIGKILL s else s)"

definition disconnect :: "MCPClient \<Rightarrow> MCPClient" where
  "disconnect s =
     (if process s then (kill SIGTERM s)\<lparr>process := False, connected := False\<rparr> else s)"

definition initialize_params :: jsval where
  "initialize_params =
     JObj [(str ''protocolVersion'', JStr (str ''2024-11-05'')),
           (str ''capabilities'', JObj [(str ''tools'', JObj [])]),
           (str ''clientInfo'', JObj [(str ''name'', JStr (str ''voice-agent-bridge'')),
                                     (str ''version'', JStr (str ''1.0.0''))])]"

text \<open>
  The synchronous part of \<^verbatim>\<open>connect\<close>; \<open>spawn_error\<close> is what \<^verbatim>\<open>spawn\<close> throws, if
  it throws.
\<close>

definition connect :: "js_error option \<Rightarrow> MCPClient \<Rightarrow> MCPClient" where
  "connect spawn_error s =
     (case spawn_error of
        Some e \<Rightarrow> s\<lparr>connectPromise := connectPromise s @ [Rejected e]\<rparr>
      | None \<Rightarrow>
          sendRequest (str ''initialize'') initialize_params InitializeThen
            (s\<lparr>process := True, killed := False, buffer := [],
               connectionTimeout := Some 60000\<rparr>))"

text \<open>The callback of the connection timer.\<close>

definition connection_timeout :: "MCPClient \<Rightarrow> MCPClient" where
  "connection_timeout s =
     (cleanup s)\<lparr>connectPromise := connectPromise (cleanup s) @
        [Rejected (Error (JStr (str ''Connection timeout'')))]\<rparr>"

text \<open>The handlers of the \<^verbatim>\<open>close\<close> and \<^verbatim>\<open>error\<close> events of the child process.\<close>

definition on_close :: "MCPClient \<Rightarrow> MCPClient" where
  "on_close s = s\<lparr>connected := False, connectionTimeout := None\<rparr>"

definition on_error :: "js_error \<Rightarrow> MCPClient \<Rightarrow> MCPClient" where
  "on_error e s = s\<lparr>connectionTimeout := None, connectPromise := connectPromise s @ [Rejected e]\<rparr>"

text \<open>
  The reactions to a settled request.  For \<^verbatim>\<open>initialize\<close>: the \<^verbatim>\<open>then\<close> handler up
  to its \<^verbatim>\<open>await\<close>, or the \<^verbatim>\<open>catch\<close> handler.  For \<^verbatim>\<open>tools/list\<close>: the rest of
  the \<^verbatim>\<open>then\<close> handler, where the \<^verbatim>\<open>try\<close> block assigns \<^verbatim>\<open>this.tools\<close> (a throw
  in the block, before or after the assignment, is caught and logged).  For
  \<^verbatim>\<open>callTool\<close>: the outcome is returned to the caller.
\<close>

fun react :: "waiter \<Rightarrow> outcome \<Rightarrow> MCPClient \<Rightarrow> MCPClient" where
  "react InitializeThen (Resolved res) s =
     sendRequest (str ''tools/list'') (JObj []) ToolsListAwait (s\<lparr>connectionTimeout := None\<rparr>)"
| "react InitializeThen (Rejected e) s =
     s\<lparr>connectionTimeout := None, connectPromise := connectPromise s @ [Rejected e]\<rparr>"
| "react ToolsListAwait (Resolved toolsResult) s =
     (let s1 = (case get_prop (str ''tools'') toolsResult of
                  Inl e \<Rightarrow> s
                | Inr t \<Rightarrow> s\<lparr>tools := js_or t (JArr [])\<rparr>)
      in s1\<lparr>connected := True, connectPromise := connectPromise s1 @ [Resolved JUndefined]\<rparr>)"
| "react ToolsListAwait (Rejected e) s =
     s\<lparr>connected := True, connectPromise := connectPromise s @ [Resolved JUndefined]\<rparr>"
| "react CallToolAwait out s = s\<lparr>delivered := delivered s @ [out]\<rparr>"

section \<open>The line framer\<close>

text \<open>
  One line of the \<^verbatim>\<open>for\<close> loop of the \<^verbatim>\<open>data\<close> handler; \<open>parse\<close> is
  \<^verbatim>\<open>JSON.parse\<close>, with \<open>None\<close> where it throws.  A blank line is skipped.  Whatever
  \<^verbatim>\<open>JSON.parse\<close> or \<^verbatim>\<open>handleMessage\<close> throws is caught and logged;
  \<^verbatim>\<open>handleMessage\<close> can only throw at its first property read, before it has
  changed anything (\<open>dispatch\<close> is the call inside the \<^verbatim>\<open>try\<close> block).
\<close>

definition dispatch :: "jsval \<Rightarrow> MCPClient \<Rightarrow> MCPClient" where
  "dispatch message s = (case handleMessage message s of Inl e \<Rightarrow> s | Inr s' \<Rightarrow> s')"

definition process_line :: "(jsstring \<Rightarrow> jsval option) \<Rightarrow> jsstring \<Rightarrow> MCPClient \<Rightarrow> MCPClient" where
  "process_line parse line s =
     (if truthy (JStr (trim line)) then
        (let s1 = s\<lparr>framed := framed s @ [line]\<rparr> in
         case parse line of
           None \<Rightarrow> s1
         | Some message \<Rightarrow> dispatch message s1)
      else s)"

text \<open>The handler of the \<^verbatim>\<open>data\<close> event of the child's standard output.\<close>

definition on_data :: "(jsstring \<Rightarrow> jsval option) \<Rightarrow> byte list \<Rightarrow> MCPClient \<Rightarrow> MCPClient" where
  "on_data parse data s =
     (let lines = js_split nl (buffer s @ toString data);
          piece = last lines;
          s1 = s\<lparr>buffer := (if piece \<noteq> [] then piece else [])\<rparr>
      in foldl (\<lambda>s' line. process_line parse line s') s1 (butlast lines))"

section \<open>The event loop\<close>

text \<open>
  After each callback the runtime runs the queued promise reactions until the queue is
  empty.  A reaction queues at most one further reaction (the \<^verbatim>\<open>tools/list\<close> request
  that is rejected at once), so the queue runs dry.
\<close>

fun task_weight :: "waiter \<times> outcome \<Rightarrow> nat" where
  "task_weight (InitializeThen, out) = 2"
| "task_weight (w, out) = 1"

function drain :: "MCPClient \<Rightarrow> MCPClient" where
  "drain s =
     (case microtasks s of
        [] \<Rightarrow> s
      | (w, out) # rest \<Rightarrow> drain (react w out (s\<lparr>microtasks := rest\<rparr>)))"
  by pat_completeness auto

text \<open>
  What the event loop can run: the handlers registered by \<^verbatim>\<open>connect\<close>, the callbacks
  of the timers (a timer fires only while it is armed, and once), the calls made by the
  service, and a change of the child's input stream.
\<close>

datatype event =
    Data "byte list"
  | Stderr "byte list"
  | Close
  | ProcessError js_error
  | ConnectionTimer
  | RequestTimer nat
  | KillTimer
  | CallTool jsval jsval
  | Disconnect
  | StdinState "js_error option"

fun callback :: "(jsstring \<Rightarrow> jsval option) \<Rightarrow> event \<Rightarrow> MCPClient \<Rightarrow> MCPClient" where
  "callback parse (Data d) s = on_data parse d s"
| "callback parse (Stderr d) s = s"
| "callback parse Close s = on_close s"
| "callback parse (ProcessError e) s = on_error e s"
| "callback parse ConnectionTimer s =
     (case connectionTimeout s of
        None \<Rightarrow> s
      | Some d \<Rightarrow> connection_timeout (s\<lparr>connectionTimeout := None\<rparr>))"
| "callback parse (RequestTimer i) s =
     (case map_of (requestTimers s) i of
        None \<Rightarrow> s
      | Some d \<Rightarrow> request_timeout i (s\<lparr>requestTimers := AList.delete i (requestTimers s)\<rparr>))"
| "callback parse KillTimer s =
     (case killTimer s of
        None \<Rightarrow> s
      | Some d \<Rightarrow> kill_timeout (s\<lparr>killTimer := None\<rparr>))"
| "callback parse (CallTool name arguments_obj) s = callTool name arguments_obj s"
| "callback parse Disconnect s = disconnect s"
| "callback parse (StdinState e) s = s\<lparr>stdinError := e\<rparr>"

definition step :: "(jsstring \<Rightarrow> jsval option) \<Rightarrow> event \<Rightarrow> MCPClient \<Rightarrow> MCPClient" where
  "step parse ev s = drain (callback parse ev s)"

definition run :: "(jsstring \<Rightarrow> jsval option) \<Rightarrow> event list \<Rightarrow> MCPClient \<Rightarrow> MCPClient" where
  "run parse evs s = foldl (\<lambda>s' ev. step parse ev s') s evs"

text \<open>
  The life of one client, as the service uses it: constructed, connected once, then driven
  by events.
\<close>

definition session :: "(jsstring \<Rightarrow> jsval option) \<Rightarrow> js_error option \<Rightarrow> event list \<Rightarrow> MCPClient" where
  "session parse spawn_error evs = run parse evs (drain (connect spawn_error new_MCPClient))"

text \<open>The chunks that a sequence of events delivers, decoded and joined.\<close>

fun received :: "event list \<Rightarrow> jsstring" where
  "received [] = []"
| "received (Data d # evs) = toString d @ received evs"
| "received (ev # evs) = received evs"

text \<open>The property read of a value that is not \<^verbatim>\<open>null\<close> or \<^verbatim>\<open>undefined\<close>.\<close>

definition field :: "jsstring \<Rightarrow> jsval \<Rightarrow> jsval" where
  "field k v = (case get_prop k v of Inl e \<Rightarrow> JUndefined | Inr x \<Rightarrow> x)"

text \<open>The bytes of an ASCII text, to write chunks down.\<close>

definition ascii :: "string \<Rightarrow> byte list" where
  "ascii = map of_char"

section \<open>Invariants of a session\<close>

text \<open>
  The ids in use: the ids taken from the counter are \<open>1, 2, \<dots>\<close> up to the counter, the
  keys of the table and the ids that were settled are among them, no key is in the table
  twice, no id was settled twice, and no settled id is in the table.
\<close>

definition ids_ok :: "MCPClient \<Rightarrow> bool" where
  "ids_ok s \<longleftrightarrow>
     issued s = [1..<requestId s] \<and> 0 < requestId s \<and>
     set (map fst (pendingRequests s)) \<subseteq> {1..<requestId s} \<and>
     distinct (map fst (pendingRequests s)) \<and>
     set (map fst (settled s)) \<subseteq> {1..<requestId s} \<and>
     distinct (map fst (settled s)) \<and>
     set (map fst (settled s)) \<inter> set (map fst (pendingRequests s)) = {}"

text \<open>Every armed request timer runs for 15000 milliseconds.\<close>

definition deadlines_ok :: "MCPClient \<Rightarrow> bool" where
  "deadlines_ok s \<longleftrightarrow> snd ` set (requestTimers s) \<subseteq> {15000}"

text \<open>
  The handshake: request 1 is the \<^verbatim>\<open>initialize\<close> call.  Whatever follows a successful
  \<^verbatim>\<open>initialize\<close> (the \<^verbatim>\<open>tools/list\<close> request, its reaction, \<open>connected\<close>, a
  resolved \<^verbatim>\<open>connect\<close>) is only there once request 1 has been resolved.
\<close>

definition initialize_resolved :: "MCPClient \<Rightarrow> bool" where
  "initialize_resolved s \<longleftrightarrow> (\<exists>res. (1, Resolved res) \<in> set (settled s))"

definition handshake_ok :: "MCPClient \<Rightarrow> bool" where
  "handshake_ok s \<longleftrightarrow>
     (connected s \<longrightarrow> initialize_resolved s) \<and>
     ((\<exists>v. Resolved v \<in> set (connectPromise s)) \<longrightarrow> initialize_resolved s) \<and>
     ((\<exists>out. (ToolsListAwait, out) \<in> set (microtasks s)) \<longrightarrow> initialize_resolved s) \<and>
     ((\<exists>k. (k, ToolsListAwait) \<in> set (pendingRequests s)) \<longrightarrow> initialize_resolved s) \<and>
     ((\<exists>res. (InitializeThen, Resolved res) \<in> set (microtasks s)) \<longrightarrow> initialize_resolved s) \<and>
     (\<forall>k. (k, InitializeThen) \<in> set (pendingRequests s) \<longrightarrow> k = 1)"

section \<open>The event loop runs dry\<close>

lemma microtasks_sendRequest:
  "sum_list (map task_weight (microtasks (sendRequest m p ToolsListAwait s)))
     \<le> Suc (sum_list (map task_weight (microtasks s)))"
  by (simp add: sendRequest_def settle_def Let_def split: option.splits)

lemma react_weight:
  "sum_list (map task_weight (microtasks (react w out (s\<lparr>microtasks := rest\<rparr>))))
     < task_weight (w, out) + sum_list (map task_weight rest)"
proof (cases w)
  case InitializeThen
  then show ?thesis
    using microtasks_sendRequest [of "str ''tools/list''" "JObj []"
        "s\<lparr>microtasks := rest, connectionTimeout := None\<rparr>"]
    by (cases out) simp_all
next
  case ToolsListAwait
  then show ?thesis by (cases out) (simp_all add: Let_def split: sum.splits)
next
  case CallToolAwait
  then show ?thesis by simp
qed

termination drain
  by (relation "measure (\<lambda>s. sum_list (map task_weight (microtasks s)))")
     (use react_weight in \<open>auto\<close>)

declare drain.simps [simp del]

lemma drain_Nil: "microtasks s = [] \<Longrightarrow> drain s = s"
  by (subst drain.simps) simp

lemma drain_Cons:
  "microtasks s = (w, out) # rest \<Longrightarrow> drain s = drain (react w out (s\<lparr>microtasks := rest\<rparr>))"
  by (subst drain.simps) simp

lemma drain_preserves:
  assumes step: "\<And>s w out rest. Q s \<Longrightarrow> microtasks s = (w, out) # rest \<Longrightarrow>
                   Q (react w out (s\<lparr>microtasks := rest\<rparr>))"
    and init: "Q s"
  shows "Q (drain s)"
  using init
proof (induction s rule: drain.induct)
  case (1 s)
  show ?case
  proof (cases "microtasks s")
    case Nil
    with 1 show ?thesis by (simp add: drain_Nil)
  next
    case (Cons t rest)
    obtain w out where t: "t = (w, out)" by (cases t)
    from Cons t have m: "microtasks s = (w, out) # rest" by simp
    have "Q (react w out (s\<lparr>microtasks := rest\<rparr>))" using step 1(2) m by blast
    then have "Q (drain (react w out (s\<lparr>microtasks := rest\<rparr>)))"
      using 1(1) m by blast
    then show ?thesis using m by (simp add: drain_Cons)
  qed
qed

lemma microtasks_drain: "microtasks (drain s) = []"
proof (induction s rule: drain.induct)
  case (1 s)
  show ?case
  proof (cases "microtasks s")
    case Nil
    then show ?thesis by (simp add: drain_Nil)
  next
    case (Cons t rest)
    obtain w out where t: "t = (w, out)" by (cases t)
    from Cons t have m: "microtasks s = (w, out) # rest" by simp
    then show ?thesis using 1 by (simp add: drain_Cons)
  qed
qed

lemma run_preserves:
  assumes step: "\<And>s ev. Q s \<Longrightarrow> Q (step parse ev s)"
    and init: "Q s"
  shows "Q (run parse evs s)"
  using init unfolding run_def
  by (induction evs arbitrary: s) (simp_all add: step)

lemma run_snoc: "run parse (evs @ [ev]) s = step parse ev (run parse evs s)"
  by (simp add: run_def)

lemma microtasks_session: "microtasks (session parse spawn_error evs) = []"
proof (cases evs rule: rev_cases)
  case Nil
  then show ?thesis by (simp add: session_def run_def microtasks_drain)
next
  case (snoc evs' ev)
  then show ?thesis by (simp add: session_def run_snoc step_def microtasks_drain)
qed

section \<open>How the handlers change the state\<close>

lemma set_delete_subset: "set (AList.delete k al) \<subseteq> set al"
  by (auto simp: AList.delete_eq)

lemma set_update_subset: "set (AList.update k v al) \<subseteq> insert (k, v) (set al)"
  by (induction al) auto

lemma lookup_SomeD:
  "lookup table v = Some (k, w) \<Longrightarrow> as_key v = Some k \<and> map_of table k = Some w"
  by (auto simp: lookup_def split: option.splits)

lemma as_key_truthy: "as_key v = Some k \<Longrightarrow> 0 < k \<Longrightarrow> truthy v"
  by (cases v) (auto split: if_splits)

lemma get_prop_Inr: "v \<noteq> JNull \<Longrightarrow> v \<noteq> JUndefined \<Longrightarrow> get_prop k v = Inr (field k v)"
  by (cases v) (simp_all add: field_def)

lemma truthy_not_null: "truthy v \<Longrightarrow> v \<noteq> JNull \<and> v \<noteq> JUndefined"
  by (cases v) simp_all

lemma as_key_field: "as_key (field k m) = Some i \<Longrightarrow> m \<noteq> JNull \<and> m \<noteq> JUndefined"
  by (cases m) (simp_all add: field_def)

text \<open>
  A message either changes nothing or settles one entry of the table; it touches nothing
  but the table, the log of settlements and the queue of reactions.
\<close>

lemma handleMessage_cases:
  assumes "handleMessage message s = Inr s'"
  shows "s' = s \<or> (\<exists>k w out. map_of (pendingRequests s) k = Some w \<and>
           s' = settle k w out (s\<lparr>pendingRequests := AList.delete k (pendingRequests s)\<rparr>))"
proof (cases "get_prop (str ''id'') message")
  case (Inl e)
  with assms show ?thesis by (simp add: handleMessage_def)
next
  case (Inr idv)
  show ?thesis
  proof (cases "lookup (pendingRequests s) idv")
    case None
    with assms Inr show ?thesis by (simp add: handleMessage_def split: if_splits)
  next
    case (Some kw)
    obtain k w where kw: "kw = (k, w)" by (cases kw)
    from Some kw have m: "map_of (pendingRequests s) k = Some w" by (simp add: lookup_SomeD)
    from assms Inr Some kw have "s' = s \<or> (\<exists>out. s' =
        settle k w out (s\<lparr>pendingRequests := AList.delete k (pendingRequests s)\<rparr>))"
      by (auto simp: handleMessage_def Let_def split: sum.splits if_splits)
    with m show ?thesis by blast
  qed
qed

text \<open>The only throw of \<^verbatim>\<open>handleMessage\<close> is the read of \<^verbatim>\<open>message.id\<close>.\<close>

lemma handleMessage_throws:
  assumes "handleMessage message s = Inl e"
  shows "get_prop (str ''id'') message = Inl e"
proof (cases "message = JNull \<or> message = JUndefined")
  case True
  with assms show ?thesis by (auto simp: handleMessage_def)
next
  case False
  then have m: "get_prop k message = Inr (field k message)" for k
    by (simp add: get_prop_Inr)
  have e: "get_prop (str ''message'') err = Inr (field (str ''message'') err)"
    if "truthy err" for err
    using truthy_not_null [OF that] by (simp add: get_prop_Inr)
  from assms show ?thesis
    by (auto simp: handleMessage_def m e Let_def split: if_splits option.splits)
qed

lemma dispatch_preserves:
  assumes "\<And>k w out. map_of (pendingRequests s) k = Some w \<Longrightarrow>
             Q (settle k w out (s\<lparr>pendingRequests := AList.delete k (pendingRequests s)\<rparr>))"
    and "Q s"
  shows "Q (dispatch message s)"
proof (cases "handleMessage message s")
  case (Inl e)
  with assms(2) show ?thesis by (simp add: dispatch_def)
next
  case (Inr s')
  from handleMessage_cases [OF Inr] assms Inr show ?thesis
    by (auto simp: dispatch_def)
qed

lemma dispatch_untouched:
  "process (dispatch message s) = process s \<and> connected (dispatch message s) = connected s \<and>
   requestId (dispatch message s) = requestId s \<and> tools (dispatch message s) = tools s \<and>
   buffer (dispatch message s) = buffer s \<and>
   connectionTimeout (dispatch message s) = connectionTimeout s \<and>
   requestTimers (dispatch message s) = requestTimers s \<and>
   killTimer (dispatch message s) = killTimer s \<and> stdin (dispatch message s) = stdin s \<and>
   stdinError (dispatch message s) = stdinError s \<and> killed (dispatch message s) = killed s \<and>
   signals (dispatch message s) = signals s \<and>
   connectPromise (dispatch message s) = connectPromise s \<and>
   delivered (dispatch message s) = delivered s \<and> issued (dispatch message s) = issued s \<and>
   framed (dispatch message s) = framed s"
  by (rule dispatch_preserves) (simp_all add: settle_def)

lemma on_data_preserves:
  assumes d: "\<And>message s. Q s \<Longrightarrow> Q (dispatch message s)"
    and b: "\<And>s b. Q s \<Longrightarrow> Q (s\<lparr>buffer := b\<rparr>)"
    and f: "\<And>s f. Q s \<Longrightarrow> Q (s\<lparr>framed := f\<rparr>)"
    and init: "Q s"
  shows "Q (on_data parse data s)"
proof -
  have line: "Q (process_line parse line s')" if "Q s'" for line s'
    using that d f by (simp add: process_line_def Let_def split: option.splits)
  have loop: "Q (foldl (\<lambda>s' line. process_line parse line s') s' ls)" if "Q s'" for s' ls
    using that by (induction ls arbitrary: s') (simp_all add: line)
  show ?thesis
    unfolding on_data_def Let_def by (rule loop) (rule b [OF init])
qed

lemma session_preserves:
  assumes c: "Q (connect spawn_error new_MCPClient)"
    and r: "\<And>s w out rest. Q s \<Longrightarrow> microtasks s = (w, out) # rest \<Longrightarrow>
                   Q (react w out (s\<lparr>microtasks := rest\<rparr>))"
    and cb: "\<And>s ev. Q s \<Longrightarrow> Q (callback parse ev s)"
  shows "Q (session parse spawn_error evs)"
  unfolding session_def
proof (rule run_preserves)
  show "Q (drain (connect spawn_error new_MCPClient))"
    by (rule drain_preserves [of Q, OF r c])
  show "Q (step parse ev s)" if "Q s" for s ev
    unfolding step_def by (rule drain_preserves [of Q, OF r cb [OF that]])
qed

lemma sendRequest_idle:
  "\<not> process s \<Longrightarrow>
     sendRequest method params w s =
       s\<lparr>microtasks := microtasks s @
            [(w, Rejected (Error (JStr (str ''MCP server not connected''))))]\<rparr>"
  by (simp add: sendRequest_def)

lemma sendRequest_written:
  "process s \<Longrightarrow> stdinError s = None \<Longrightarrow>
     connected (sendRequest method params w s) = connected s \<and>
     connectPromise (sendRequest method params w s) = connectPromise s \<and>
     microtasks (sendRequest method params w s) = microtasks s \<and>
     settled (sendRequest method params w s) = settled s \<and>
     pendingRequests (sendRequest method params w s) =
       AList.update (requestId s) w (pendingRequests s)"
  by (simp add: sendRequest_def Let_def)

lemma sendRequest_thrown:
  "process s \<Longrightarrow> stdinError s = Some e \<Longrightarrow>
     connected (sendRequest method params w s) = connected s \<and>
     connectPromise (sendRequest method params w s) = connectPromise s \<and>
     microtasks (sendRequest method params w s) = microtasks s @ [(w, Rejected e)] \<and>
     settled (sendRequest method params w s) = settled s @ [(requestId s, Rejected e)] \<and>
     pendingRequests (sendRequest method params w s) =
       AList.delete (requestId s) (pendingRequests s)"
  by (simp add: sendRequest_def Let_def settle_def delete_update_same)

lemma requestTimers_sendRequest:
  "requestTimers (sendRequest method params w s) =
     (if process s then requestTimers s @ [(requestId s, 15000)] else requestTimers s)"
  by (simp add: sendRequest_def settle_def Let_def split: option.splits)

lemma react_ToolsListAwait_fields:
  "settled (react ToolsListAwait out s) = settled s \<and>
   pendingRequests (react ToolsListAwait out s) = pendingRequests s \<and>
   microtasks (react ToolsListAwait out s) = microtasks s \<and>
   connected (react ToolsListAwait out s) \<and>
   connectPromise (react ToolsListAwait out s) = connectPromise s @ [Resolved JUndefined]"
proof (cases out)
  case (Resolved r)
  then show ?thesis
    by (cases "get_prop (str ''tools'') r") (simp_all add: Let_def)
next
  case (Rejected e)
  then show ?thesis by simp
qed

lemmas run_defs = session_def run_def step_def connect_def sendRequest_def settle_def
  new_MCPClient_def request_timeout_def dispatch_def handleMessage_def lookup_def js_or_def
  field_def Let_def drain_Nil drain_Cons

lemmas decode_defs = ascii_def str_def toString_def decode_byte_def decode_lead_def
  decoder_init_def utf16_def

lemmas eval_defs = run_defs on_data_def process_line_def decode_defs trim_def is_space_def
  nl_def

section \<open>Request ids and settlements\<close>

lemma ids_ok_settle_delete:
  assumes "ids_ok s" and "map_of (pendingRequests s) k = Some w"
  shows "ids_ok (settle k w out (s\<lparr>pendingRequests := AList.delete k (pendingRequests s)\<rparr>))"
proof -
  from assms(2) have k: "k \<in> set (map fst (pendingRequests s))"
    by (metis map_of_eq_None_iff option.distinct(1) set_map)
  with assms(1) have "k \<notin> set (map fst (settled s))" and "k \<in> {1..<requestId s}"
    by (auto simp: ids_ok_def)
  with assms(1) show ?thesis
    by (auto simp: ids_ok_def settle_def delete_keys distinct_removeAll)
qed

lemma ids_ok_sendRequest:
  assumes "ids_ok s"
  shows "ids_ok (sendRequest method params w s)"
proof (cases "process s")
  case False
  then show ?thesis using assms by (simp add: sendRequest_def ids_ok_def)
next
  case True
  from assms have fresh: "requestId s \<notin> set (map fst (pendingRequests s))"
    "requestId s \<notin> set (map fst (settled s))"
    by (auto simp: ids_ok_def)
  from assms have iss: "issued s @ [requestId s] = [1..<Suc (requestId s)]"
    by (simp add: ids_ok_def)
  show ?thesis
  proof (cases "stdinError s")
    case None
    with True assms fresh iss show ?thesis
      by (auto simp: sendRequest_def ids_ok_def Let_def update_keys distinct_update)
  next
    case (Some e)
    with True assms fresh iss show ?thesis
      by (auto simp: sendRequest_def ids_ok_def Let_def settle_def update_keys delete_keys
          distinct_removeAll)
  qed
qed

lemma ids_ok_dispatch: "ids_ok s \<Longrightarrow> ids_ok (dispatch message s)"
  by (rule dispatch_preserves) (simp_all add: ids_ok_settle_delete)

lemma ids_ok_request_timeout: "ids_ok s \<Longrightarrow> ids_ok (request_timeout i s)"
  by (auto simp: request_timeout_def ids_ok_settle_delete split: option.splits)

lemma ids_ok_callback:
  assumes ok: "ids_ok s"
  shows "ids_ok (callback parse ev s)"
proof (cases ev)
  case (Data d)
  from ok have "ids_ok (on_data parse d s)"
  proof (rule on_data_preserves [where Q = ids_ok, rotated 3])
    show "ids_ok (dispatch message s')" if "ids_ok s'" for message s'
      using that by (rule ids_ok_dispatch)
  qed (simp_all add: ids_ok_def)
  with Data show ?thesis by simp
next
  case (RequestTimer i)
  have "ids_ok (s\<lparr>requestTimers := AList.delete i (requestTimers s)\<rparr>)"
    using ok by (simp add: ids_ok_def)
  then show ?thesis using ok RequestTimer
    by (auto simp: ids_ok_request_timeout split: option.splits)
next
  case (CallTool n a)
  have "ids_ok (s\<lparr>delivered := delivered s @
      [Rejected (Error (JStr (str ''MCP server not connected'')))]\<rparr>)"
    using ok by (simp add: ids_ok_def)
  then show ?thesis using ok CallTool
    by (simp add: callTool_def ids_ok_sendRequest)
qed (use ok in \<open>simp_all add: ids_ok_def on_close_def on_error_def connection_timeout_def
      cleanup_def kill_def kill_timeout_def disconnect_def split: option.splits\<close>)

lemma ids_ok_react:
  assumes "ids_ok s"
  shows "ids_ok (react w out (s\<lparr>microtasks := rest\<rparr>))"
proof -
  have a: "ids_ok (s\<lparr>microtasks := rest\<rparr>)" using assms by (simp add: ids_ok_def)
  show ?thesis
  proof (cases w)
    case InitializeThen
    have "ids_ok (s\<lparr>microtasks := rest, connectionTimeout := None\<rparr>)"
      using assms by (simp add: ids_ok_def)
    then show ?thesis using InitializeThen a
      by (cases out) (simp_all add: ids_ok_sendRequest, simp add: ids_ok_def)
  next
    case ToolsListAwait
    then show ?thesis using a
      by (cases out) (simp_all add: ids_ok_def Let_def split: sum.splits)
  next
    case CallToolAwait
    then show ?thesis using a by (simp add: ids_ok_def)
  qed
qed

lemma ids_ok_connect: "ids_ok (connect spawn_error new_MCPClient)"
proof (cases spawn_error)
  case None
  have "ids_ok (new_MCPClient\<lparr>process := True, killed := False, buffer := [],
      connectionTimeout := Some 60000\<rparr>)"
    by (simp add: ids_ok_def new_MCPClient_def)
  with None show ?thesis by (simp add: connect_def ids_ok_sendRequest)
next
  case (Some e)
  then show ?thesis by (simp add: connect_def ids_ok_def new_MCPClient_def)
qed

lemma ids_ok_session: "ids_ok (session parse spawn_error evs)"
  by (rule session_preserves) (simp_all add: ids_ok_connect ids_ok_react ids_ok_callback)

text \<open>
  C1.  A request is settled at most once.  Over any sequence of events of a session, no id
  occurs twice in the log of the calls of \<^verbatim>\<open>resolve\<close> and \<^verbatim>\<open>reject\<close>.  Once an id has
  been settled (by its deadline, by a response or by a failed write) it has no entry in the
  table, so the callback of its timer changes nothing, and a message that carries this id
  is ignored: it leaves the whole state as it is.
\<close>

theorem single_settlement:
  "distinct (map fst (settled (session parse spawn_error evs))) \<and>
   (\<forall>i out. (i, out) \<in> set (settled (session parse spawn_error evs)) \<longrightarrow>
      map_of (pendingRequests (session parse spawn_error evs)) i = None \<and>
      request_timeout i (session parse spawn_error evs) = session parse spawn_error evs \<and>
      (\<forall>message. as_key (field (str ''id'') message) = Some i \<longrightarrow>
         dispatch message (session parse spawn_error evs) = session parse spawn_error evs))"
proof (intro conjI allI impI)
  let ?s = "session parse spawn_error evs"
  have ok: "ids_ok ?s" by (rule ids_ok_session)
  then show "distinct (map fst (settled ?s))" by (simp add: ids_ok_def)
  fix i out
  assume "(i, out) \<in> set (settled ?s)"
  then have "i \<in> set (map fst (settled ?s))" by force
  with ok have "i \<notin> set (map fst (pendingRequests ?s))" by (auto simp: ids_ok_def)
  then show none: "map_of (pendingRequests ?s) i = None"
    by (simp add: map_of_eq_None_iff)
  then show "request_timeout i ?s = ?s" by (simp add: request_timeout_def)
  fix message
  assume k: "as_key (field (str ''id'') message) = Some i"
  then have nn: "message \<noteq> JNull \<and> message \<noteq> JUndefined" by (rule as_key_field)
  have "lookup (pendingRequests ?s) (field (str ''id'') message) = None"
    using none k by (simp add: lookup_def)
  then show "dispatch message ?s = ?s"
    using nn by (simp add: dispatch_def handleMessage_def get_prop_Inr)
qed

text \<open>
  The scenario of the specification: the deadline of request 1 fires, the response comes
  later.
\<close>

theorem single_settlement_witness:
  "(1, Rejected (Error (JStr (str ''Request timeout'')))) \<in>
     set (settled (session (\<lambda>l. None) None [RequestTimer 1])) \<and>
   dispatch (JObj [(str ''jsonrpc'', JStr (str ''2.0'')), (str ''id'', JNum 1),
                   (str ''result'', JObj [])])
     (session (\<lambda>l. None) None [RequestTimer 1]) = session (\<lambda>l. None) None [RequestTimer 1] \<and>
   request_timeout 1 (session (\<lambda>l. None) None [RequestTimer 1]) =
     session (\<lambda>l. None) None [RequestTimer 1]"
proof -
  have m: "(1, Rejected (Error (JStr (str ''Request timeout'')))) \<in>
     set (settled (session (\<lambda>l. None) None [RequestTimer 1]))"
    by (simp add: run_defs)
  have k: "as_key (field (str ''id'') (JObj [(str ''jsonrpc'', JStr (str ''2.0'')),
      (str ''id'', JNum 1), (str ''result'', JObj [])])) = Some 1"
    by (simp add: field_def str_def)
  from m k single_settlement [of "\<lambda>l. None" None "[RequestTimer 1]"] show ?thesis
    by blast
qed

text \<open>
  C5.  The counter starts at 1.  Each \<^verbatim>\<open>sendRequest\<close> that finds a process takes the
  value of the counter as its id and adds one to the counter.  So, over any sequence of
  events of a session, the ids taken are \<open>1, 2, 3, \<dots>\<close> in this order: they increase
  strictly and none is taken twice.  The keys of the table of pending requests are
  pairwise different and are ids that were taken.
\<close>

theorem request_ids:
  "requestId new_MCPClient = 1 \<and>
   issued (sendRequest method params w s) =
     (if process s then issued s @ [requestId s] else issued s) \<and>
   requestId (sendRequest method params w s) =
     (if process s then requestId s + 1 else requestId s) \<and>
   issued (session parse spawn_error evs) = [1..<requestId (session parse spawn_error evs)] \<and>
   sorted_wrt (<) (issued (session parse spawn_error evs)) \<and>
   distinct (issued (session parse spawn_error evs)) \<and>
   distinct (map fst (pendingRequests (session parse spawn_error evs))) \<and>
   set (map fst (pendingRequests (session parse spawn_error evs))) \<subseteq>
     set (issued (session parse spawn_error evs))"
proof -
  have ok: "ids_ok (session parse spawn_error evs)" by (rule ids_ok_session)
  have "requestId new_MCPClient = 1" by (simp add: new_MCPClient_def)
  moreover have "issued (sendRequest method params w s) =
     (if process s then issued s @ [requestId s] else issued s) \<and>
   requestId (sendRequest method params w s) =
     (if process s then requestId s + 1 else requestId s)"
    by (simp add: sendRequest_def settle_def Let_def split: option.splits)
  moreover from ok have "issued (session parse spawn_error evs) =
      [1..<requestId (session parse spawn_error evs)]"
    by (simp add: ids_ok_def)
  moreover from ok have "distinct (map fst (pendingRequests (session parse spawn_error evs)))"
    "set (map fst (pendingRequests (session parse spawn_error evs))) \<subseteq>
       {1..<requestId (session parse spawn_error evs)}"
    by (simp_all add: ids_ok_def)
  ultimately show ?thesis by simp
qed

section \<open>Responses\<close>

text \<open>
  C2, as the code has it.  A message whose \<^verbatim>\<open>id\<close> is the key \<open>k\<close> of a pending entry
  removes that entry and settles its promise.  If the \<^verbatim>\<open>error\<close> field of the message is
  truthy, the promise is rejected with \<^verbatim>\<open>new Error(message.error.message || 'MCP error')\<close>:
  the error carries the server's message when there is one, the fixed text
  \<^verbatim>\<open>MCP error\<close> otherwise, and never the server's code.  If the \<^verbatim>\<open>error\<close> field is
  absent or falsy, the promise is resolved with the \<^verbatim>\<open>result\<close> field.  A message, other
  than \<^verbatim>\<open>null\<close>, whose \<^verbatim>\<open>id\<close> is absent, falsy or not the key of a pending entry changes
  nothing and throws nothing.
\<close>

theorem handleMessage_response:
  "(0 < k \<and> as_key (field (str ''id'') message) = Some k \<and>
      map_of (pendingRequests s) k = Some w \<longrightarrow>
      handleMessage message s =
        Inr (settle k w
          (if truthy (field (str ''error'') message)
           then Rejected (Error (js_or (field (str ''message'') (field (str ''error'') message))
                                   (JStr (str ''MCP error''))))
           else Resolved (field (str ''result'') message))
          (s\<lparr>pendingRequests := AList.delete k (pendingRequests s)\<rparr>)) \<and>
      map_of (pendingRequests (dispatch message s)) k = None \<and>
      settled (dispatch message s) = settled s @
        [(k, if truthy (field (str ''error'') message)
             then Rejected (Error (js_or (field (str ''message'') (field (str ''error'') message))
                                     (JStr (str ''MCP error''))))
             else Resolved (field (str ''result'') message))]) \<and>
   (message \<noteq> JNull \<and> message \<noteq> JUndefined \<and>
      (lookup (pendingRequests s) (field (str ''id'') message) = None \<or>
       \<not> truthy (field (str ''id'') message)) \<longrightarrow>
      handleMessage message s = Inr s \<and> dispatch message s = s)"
proof (intro conjI impI)
  assume a: "0 < k \<and> as_key (field (str ''id'') message) = Some k \<and>
      map_of (pendingRequests s) k = Some w"
  then have nn: "message \<noteq> JNull" "message \<noteq> JUndefined"
    using as_key_field by blast+
  have t: "truthy (field (str ''id'') message)" using a as_key_truthy by blast
  have l: "lookup (pendingRequests s) (field (str ''id'') message) = Some (k, w)"
    using a by (simp add: lookup_def)
  have e: "get_prop (str ''message'') (field (str ''error'') message) =
      Inr (field (str ''message'') (field (str ''error'') message))"
    if "truthy (field (str ''error'') message)"
    using truthy_not_null [OF that] by (simp add: get_prop_Inr)
  show h: "handleMessage message s =
        Inr (settle k w
          (if truthy (field (str ''error'') message)
           then Rejected (Error (js_or (field (str ''message'') (field (str ''error'') message))
                                   (JStr (str ''MCP error''))))
           else Resolved (field (str ''result'') message))
          (s\<lparr>pendingRequests := AList.delete k (pendingRequests s)\<rparr>))"
    using t l e by (simp add: handleMessage_def get_prop_Inr [OF nn] Let_def)
  show "map_of (pendingRequests (dispatch message s)) k = None"
    by (simp add: dispatch_def h settle_def delete_conv')
  show "settled (dispatch message s) = settled s @
        [(k, if truthy (field (str ''error'') message)
             then Rejected (Error (js_or (field (str ''message'') (field (str ''error'') message))
                                     (JStr (str ''MCP error''))))
             else Resolved (field (str ''result'') message))]"
    by (simp add: dispatch_def h settle_def)
next
  assume a: "message \<noteq> JNull \<and> message \<noteq> JUndefined \<and>
      (lookup (pendingRequests s) (field (str ''id'') message) = None \<or>
       \<not> truthy (field (str ''id'') message))"
  then have g: "get_prop (str ''id'') message = Inr (field (str ''id'') message)"
    by (simp add: get_prop_Inr)
  from a show h: "handleMessage message s = Inr s"
    by (auto simp: handleMessage_def g)
  show "dispatch message s = s" by (simp add: dispatch_def h)
qed

text \<open>
  An error response to the pending \<^verbatim>\<open>initialize\<close> request, and a notification.
\<close>

theorem handleMessage_response_witness:
  "map_of (pendingRequests (connect None new_MCPClient)) 1 = Some InitializeThen \<and>
   settled (dispatch (JObj [(str ''jsonrpc'', JStr (str ''2.0'')), (str ''id'', JNum 1),
        (str ''error'', JObj [(str ''code'', JNum (- 32601)),
                              (str ''message'', JStr (str ''Method not found''))])])
      (connect None new_MCPClient)) =
     [(1, Rejected (Error (JStr (str ''Method not found''))))] \<and>
   dispatch (JObj [(str ''jsonrpc'', JStr (str ''2.0'')),
                   (str ''method'', JStr (str ''notifications/progress''))])
      (connect None new_MCPClient) = connect None new_MCPClient"
  using handleMessage_response [of 1
      "JObj [(str ''jsonrpc'', JStr (str ''2.0'')), (str ''id'', JNum 1),
        (str ''error'', JObj [(str ''code'', JNum (- 32601)),
                              (str ''message'', JStr (str ''Method not found''))])]"
      "connect None new_MCPClient" InitializeThen]
    handleMessage_response [of 1
      "JObj [(str ''jsonrpc'', JStr (str ''2.0'')),
             (str ''method'', JStr (str ''notifications/progress''))]"
      "connect None new_MCPClient" InitializeThen]
  by (simp add: connect_def sendRequest_def new_MCPClient_def Let_def field_def str_def
      lookup_def js_or_def)

text \<open>
  Where the claim as written fails.  The server answers the pending request 1 with an
  error object that has a code and no message: the promise is rejected with the fixed
  text, which is neither a message nor the code of the server.  The server answers with a
  result and \<^verbatim>\<open>"error": null\<close>: the message has an \<^verbatim>\<open>error\<close> field, and the promise is
  resolved.
\<close>

theorem error_reply_counterexample:
  "settled (dispatch (JObj [(str ''jsonrpc'', JStr (str ''2.0'')), (str ''id'', JNum 1),
        (str ''error'', JObj [(str ''code'', JNum (- 32601))])])
      (connect None new_MCPClient)) =
     [(1, Rejected (Error (JStr (str ''MCP error''))))] \<and>
   settled (dispatch (JObj [(str ''jsonrpc'', JStr (str ''2.0'')), (str ''id'', JNum 1),
        (str ''result'', JStr (str ''ok'')), (str ''error'', JNull)])
      (connect None new_MCPClient)) =
     [(1, Resolved (JStr (str ''ok'')))]"
  by (intro conjI; simp add: run_defs str_def)

section \<open>Deadlines\<close>

lemma deadlines_ok_react:
  "deadlines_ok s \<Longrightarrow> deadlines_ok (react w out (s\<lparr>microtasks := rest\<rparr>))"
  by (cases w; cases out)
    (auto simp: deadlines_ok_def requestTimers_sendRequest Let_def split: sum.splits)

lemma deadlines_ok_callback:
  assumes ok: "deadlines_ok s"
  shows "deadlines_ok (callback parse ev s)"
proof (cases ev)
  case (Data d)
  from ok have "deadlines_ok (on_data parse d s)"
    by (rule on_data_preserves [where Q = deadlines_ok, rotated 3])
       (simp_all add: deadlines_ok_def dispatch_untouched)
  with Data show ?thesis by simp
next
  case (RequestTimer i)
  with ok set_delete_subset [of i "requestTimers s"] show ?thesis
    by (auto simp: deadlines_ok_def request_timeout_def settle_def split: option.splits)
qed (use ok in \<open>auto simp: deadlines_ok_def on_close_def on_error_def connection_timeout_def
      cleanup_def kill_def kill_timeout_def disconnect_def callTool_def
      requestTimers_sendRequest split: option.splits\<close>)

lemma deadlines_ok_session: "deadlines_ok (session parse spawn_error evs)"
proof (rule session_preserves)
  show "deadlines_ok (connect spawn_error new_MCPClient)"
    by (cases spawn_error)
      (simp_all add: connect_def deadlines_ok_def requestTimers_sendRequest new_MCPClient_def)
qed (simp_all add: deadlines_ok_react deadlines_ok_callback)

text \<open>
  When the timer of a request fires and the request is still pending, its entry is
  removed and its promise is rejected with the error \<^verbatim>\<open>Request timeout\<close>.
\<close>

lemma request_timer_fires:
  "map_of (requestTimers s) i = Some d \<Longrightarrow> map_of (pendingRequests s) i = Some w \<Longrightarrow>
     settled (callback parse (RequestTimer i) s) =
       settled s @ [(i, Rejected (Error (JStr (str ''Request timeout''))))] \<and>
     map_of (pendingRequests (callback parse (RequestTimer i) s)) i = None"
  by (simp add: request_timeout_def settle_def delete_conv')

text \<open>
  C3.  The deadline of a request is the same for every method: \<^verbatim>\<open>sendRequest\<close> arms a
  timer of 15000 milliseconds for the request it registers, and over any sequence of
  events of a session every armed request timer runs for 15000 milliseconds.  The
  \<^verbatim>\<open>initialize\<close> call gets no longer deadline, although \<^verbatim>\<open>connect\<close> arms a timer
  that its comment calls the \<^verbatim>\<open>60 second timeout for initial connection\<close>.
  \<^verbatim>\<open>connect\<close> sends \<^verbatim>\<open>initialize\<close> as request 1 and arms both timers at the same
  moment, the request timer with 15000 and the connection timer with 60000 milliseconds.
  With a server that takes longer than 15 seconds the request timer is the first to fire:
  request 1 is rejected with \<^verbatim>\<open>Request timeout\<close>, the reaction cancels the connection
  timer and rejects \<^verbatim>\<open>connect\<close> with that error; the connection timer does nothing
  afterwards, and the answer of the server, when it comes, is ignored.
\<close>

theorem initialize_deadline:
  \<open>requestTimers (sendRequest method params w s) =
     (if process s then requestTimers s @ [(requestId s, 15000)] else requestTimers s) \<and>
   snd ` set (requestTimers (session parse spawn_error evs)) \<subseteq> {15000} \<and>
   field (str ''method'') (hd (stdin (session (\<lambda>l. None) None []))) = JStr (str ''initialize'') \<and>
   field (str ''id'') (hd (stdin (session (\<lambda>l. None) None []))) = JNum 1 \<and>
   requestTimers (session (\<lambda>l. None) None []) = [(1, 15000)] \<and>
   connectionTimeout (session (\<lambda>l. None) None []) = Some 60000 \<and>
   connectPromise (session (\<lambda>l. None) None [RequestTimer 1]) =
     [Rejected (Error (JStr (str ''Request timeout'')))] \<and>
   connectionTimeout (session (\<lambda>l. None) None [RequestTimer 1]) = None \<and>
   session (\<lambda>l. None) None [RequestTimer 1, ConnectionTimer] =
     session (\<lambda>l. None) None [RequestTimer 1] \<and>
   settled (session
      (map_of [(str ''{"jsonrpc":"2.0","id":1,"result":{}}'',
                JObj [(str ''jsonrpc'', JStr (str ''2.0'')), (str ''id'', JNum 1),
                      (str ''result'', JObj [])])])
      None
      [RequestTimer 1, Data (ascii ''{"jsonrpc":"2.0","id":1,"result":{}}'' @ [0x0A])]) =
     [(1, Rejected (Error (JStr (str ''Request timeout''))))] \<and>
   connected (session
      (map_of [(str ''{"jsonrpc":"2.0","id":1,"result":{}}'',
                JObj [(str ''jsonrpc'', JStr (str ''2.0'')), (str ''id'', JNum 1),
                      (str ''result'', JObj [])])])
      None
      [RequestTimer 1, Data (ascii ''{"jsonrpc":"2.0","id":1,"result":{}}'' @ [0x0A])]) = False \<and>
   connectPromise (session
      (map_of [(str ''{"jsonrpc":"2.0","id":1,"result":{}}'',
                JObj [(str ''jsonrpc'', JStr (str ''2.0'')), (str ''id'', JNum 1),
                      (str ''result'', JObj [])])])
      None
      [RequestTimer 1, Data (ascii ''{"jsonrpc":"2.0","id":1,"result":{}}'' @ [0x0A])]) =
     [Rejected (Error (JStr (str ''Request timeout'')))]\<close>
proof (intro conjI)
  show "requestTimers (sendRequest method params w s) =
     (if process s then requestTimers s @ [(requestId s, 15000)] else requestTimers s)"
    by (rule requestTimers_sendRequest)
  show "snd ` set (requestTimers (session parse spawn_error evs)) \<subseteq> {15000}"
    using deadlines_ok_session [of parse spawn_error evs] by (simp add: deadlines_ok_def)
  have t: "connectionTimeout (session (\<lambda>l. None) None [RequestTimer 1]) = None"
    by (simp add: eval_defs)
  then show "connectionTimeout (session (\<lambda>l. None) None [RequestTimer 1]) = None" .
  have "session (\<lambda>l. None) None [RequestTimer 1, ConnectionTimer] =
      step (\<lambda>l. None) ConnectionTimer (session (\<lambda>l. None) None [RequestTimer 1])"
    by (simp add: session_def run_def)
  also have "\<dots> = session (\<lambda>l. None) None [RequestTimer 1]"
    using t by (simp add: step_def drain_Nil microtasks_session)
  finally show "session (\<lambda>l. None) None [RequestTimer 1, ConnectionTimer] =
     session (\<lambda>l. None) None [RequestTimer 1]" .
qed (simp_all add: eval_defs default_to_def)

section \<open>The handshake\<close>

lemma handshake_ok_extend:
  assumes ok: "handshake_ok s"
    and same: "connected s' \<Longrightarrow> connected s"
      "\<And>v. Resolved v \<in> set (connectPromise s') \<Longrightarrow> Resolved v \<in> set (connectPromise s)"
    and grow: "set (settled s) \<subseteq> set (settled s')"
    and pend: "set (pendingRequests s') \<subseteq> insert (k, w) (set (pendingRequests s))"
    and task: "set (microtasks s') \<subseteq> insert (w, Rejected e) (set (microtasks s))"
    and w: "w \<noteq> InitializeThen" "w = ToolsListAwait \<Longrightarrow> initialize_resolved s"
  shows "handshake_ok s'"
proof -
  have mono: "initialize_resolved s'" if "initialize_resolved s"
    using that grow unfolding initialize_resolved_def by blast
  have c1: "connected s' \<longrightarrow> initialize_resolved s'"
    using ok mono same(1) unfolding handshake_ok_def by blast
  have c2: "(\<exists>v. Resolved v \<in> set (connectPromise s')) \<longrightarrow> initialize_resolved s'"
    using ok mono same(2) unfolding handshake_ok_def by blast
  have c3: "(\<exists>out'. (ToolsListAwait, out') \<in> set (microtasks s')) \<longrightarrow> initialize_resolved s'"
  proof
    assume "\<exists>out'. (ToolsListAwait, out') \<in> set (microtasks s')"
    then have "(\<exists>out'. (ToolsListAwait, out') \<in> set (microtasks s)) \<or> w = ToolsListAwait"
      using task by blast
    then have "initialize_resolved s" using ok w(2) unfolding handshake_ok_def by blast
    then show "initialize_resolved s'" by (rule mono)
  qed
  have c4: "(\<exists>k'. (k', ToolsListAwait) \<in> set (pendingRequests s')) \<longrightarrow> initialize_resolved s'"
  proof
    assume "\<exists>k'. (k', ToolsListAwait) \<in> set (pendingRequests s')"
    then have "(\<exists>k'. (k', ToolsListAwait) \<in> set (pendingRequests s)) \<or> w = ToolsListAwait"
      using pend by blast
    then have "initialize_resolved s" using ok w(2) unfolding handshake_ok_def by blast
    then show "initialize_resolved s'" by (rule mono)
  qed
  have c5: "(\<exists>res. (InitializeThen, Resolved res) \<in> set (microtasks s')) \<longrightarrow>
      initialize_resolved s'"
  proof
    assume "\<exists>res. (InitializeThen, Resolved res) \<in> set (microtasks s')"
    then have "\<exists>res. (InitializeThen, Resolved res) \<in> set (microtasks s)"
      using task by blast
    then have "initialize_resolved s" using ok unfolding handshake_ok_def by blast
    then show "initialize_resolved s'" by (rule mono)
  qed
  have c6: "\<forall>k'. (k', InitializeThen) \<in> set (pendingRequests s') \<longrightarrow> k' = 1"
  proof (intro allI impI)
    fix k' assume "(k', InitializeThen) \<in> set (pendingRequests s')"
    with pend w(1) have "(k', InitializeThen) \<in> set (pendingRequests s)" by blast
    with ok show "k' = 1" unfolding handshake_ok_def by blast
  qed
  from c1 c2 c3 c4 c5 c6 show ?thesis unfolding handshake_ok_def by blast
qed

lemma handshake_ok_shrink:
  assumes "handshake_ok s" "connected s' \<Longrightarrow> connected s"
    "\<And>v. Resolved v \<in> set (connectPromise s') \<Longrightarrow> Resolved v \<in> set (connectPromise s)"
    "set (settled s) \<subseteq> set (settled s')" "set (pendingRequests s') \<subseteq> set (pendingRequests s)"
    "set (microtasks s') \<subseteq> set (microtasks s)"
  shows "handshake_ok s'"
  by (rule handshake_ok_extend [OF assms(1), where k = 0 and w = CallToolAwait and e = undefined])
    (use assms in auto)

lemma handshake_ok_resolved:
  assumes "initialize_resolved s'"
    and "\<forall>k. (k, InitializeThen) \<in> set (pendingRequests s') \<longrightarrow> k = 1"
  shows "handshake_ok s'"
  using assms unfolding handshake_ok_def by blast

lemma handshake_ok_settle_delete:
  assumes ok: "handshake_ok s" and entry: "map_of (pendingRequests s) k = Some w"
  shows "handshake_ok (settle k w out (s\<lparr>pendingRequests := AList.delete k (pendingRequests s)\<rparr>))"
proof -
  let ?s' = "settle k w out (s\<lparr>pendingRequests := AList.delete k (pendingRequests s)\<rparr>)"
  from entry have mem: "(k, w) \<in> set (pendingRequests s)" by (rule map_of_SomeD)
  have sub: "set (AList.delete k (pendingRequests s)) \<subseteq> set (pendingRequests s)"
    by (rule set_delete_subset)
  have eqs: "connected ?s' = connected s" "connectPromise ?s' = connectPromise s"
    "microtasks ?s' = microtasks s @ [(w, out)]" "settled ?s' = settled s @ [(k, out)]"
    "pendingRequests ?s' = AList.delete k (pendingRequests s)"
    by (simp_all add: settle_def)
  have mono: "initialize_resolved ?s'" if "initialize_resolved s"
    using that unfolding initialize_resolved_def eqs by auto
  have c1: "connected ?s' \<longrightarrow> initialize_resolved ?s'"
    using ok mono unfolding handshake_ok_def eqs by blast
  have c2: "(\<exists>v. Resolved v \<in> set (connectPromise ?s')) \<longrightarrow> initialize_resolved ?s'"
    using ok mono unfolding handshake_ok_def eqs by blast
  have c3: "(\<exists>out'. (ToolsListAwait, out') \<in> set (microtasks ?s')) \<longrightarrow> initialize_resolved ?s'"
  proof
    assume "\<exists>out'. (ToolsListAwait, out') \<in> set (microtasks ?s')"
    then have "(\<exists>out'. (ToolsListAwait, out') \<in> set (microtasks s)) \<or> w = ToolsListAwait"
      unfolding eqs by auto
    then have "initialize_resolved s"
      using ok mem unfolding handshake_ok_def by blast
    then show "initialize_resolved ?s'" by (rule mono)
  qed
  have c4: "(\<exists>k'. (k', ToolsListAwait) \<in> set (pendingRequests ?s')) \<longrightarrow> initialize_resolved ?s'"
  proof
    assume "\<exists>k'. (k', ToolsListAwait) \<in> set (pendingRequests ?s')"
    then have "\<exists>k'. (k', ToolsListAwait) \<in> set (pendingRequests s)"
      unfolding eqs using sub by blast
    then have "initialize_resolved s" using ok unfolding handshake_ok_def by blast
    then show "initialize_resolved ?s'" by (rule mono)
  qed
  have c5: "(\<exists>res. (InitializeThen, Resolved res) \<in> set (microtasks ?s')) \<longrightarrow>
      initialize_resolved ?s'"
  proof
    assume "\<exists>res. (InitializeThen, Resolved res) \<in> set (microtasks ?s')"
    then consider "\<exists>res. (InitializeThen, Resolved res) \<in> set (microtasks s)"
      | res where "w = InitializeThen" "out = Resolved res"
      unfolding eqs by auto
    then show "initialize_resolved ?s'"
    proof cases
      case 1
      then have "initialize_resolved s" using ok unfolding handshake_ok_def by blast
      then show ?thesis by (rule mono)
    next
      case 2
      with mem ok have "k = 1" unfolding handshake_ok_def by blast
      with 2 show ?thesis unfolding initialize_resolved_def eqs by auto
    qed
  qed
  have c6: "\<forall>k'. (k', InitializeThen) \<in> set (pendingRequests ?s') \<longrightarrow> k' = 1"
    using ok sub unfolding handshake_ok_def eqs by blast
  from c1 c2 c3 c4 c5 c6 show ?thesis unfolding handshake_ok_def by blast
qed

lemma handshake_ok_sendRequest:
  assumes "handshake_ok s" and "w \<noteq> InitializeThen"
    and "w = ToolsListAwait \<Longrightarrow> initialize_resolved s"
  shows "handshake_ok (sendRequest method params w s)"
proof (cases "process s")
  case False
  show ?thesis
    by (rule handshake_ok_extend [OF assms(1), where k = 0 and w = w and
          e = "Error (JStr (str ''MCP server not connected''))"])
      (use assms in \<open>auto simp: sendRequest_idle [OF False]\<close>)
next
  case True
  let ?s' = "sendRequest method params w s"
  show ?thesis
  proof (cases "stdinError s")
    case None
    from sendRequest_written [OF True None, of "method" "params" w]
    have eqs: "connected ?s' = connected s" "connectPromise ?s' = connectPromise s"
      "microtasks ?s' = microtasks s" "settled ?s' = settled s"
      "pendingRequests ?s' = AList.update (requestId s) w (pendingRequests s)"
      by simp_all
    show ?thesis
      by (rule handshake_ok_extend [OF assms(1), where k = "requestId s" and w = w and
            e = undefined])
        (use assms set_update_subset [of "requestId s" w "pendingRequests s"] in
          \<open>auto simp: eqs\<close>)
  next
    case (Some e)
    from sendRequest_thrown [OF True Some, of "method" "params" w]
    have eqs: "connected ?s' = connected s" "connectPromise ?s' = connectPromise s"
      "microtasks ?s' = microtasks s @ [(w, Rejected e)]"
      "settled ?s' = settled s @ [(requestId s, Rejected e)]"
      "pendingRequests ?s' = AList.delete (requestId s) (pendingRequests s)"
      by simp_all
    show ?thesis
      by (rule handshake_ok_extend [OF assms(1), where k = "requestId s" and w = w and e = e])
        (use assms set_delete_subset [of "requestId s" "pendingRequests s"] in
          \<open>auto simp: eqs\<close>)
  qed
qed

lemma handshake_ok_dispatch: "handshake_ok s \<Longrightarrow> handshake_ok (dispatch message s)"
  by (rule dispatch_preserves) (simp_all add: handshake_ok_settle_delete)

lemma handshake_ok_request_timeout: "handshake_ok s \<Longrightarrow> handshake_ok (request_timeout i s)"
  by (cases "map_of (pendingRequests s) i")
    (simp_all add: request_timeout_def handshake_ok_settle_delete)

lemma handshake_ok_react:
  assumes ok: "handshake_ok s" and head: "microtasks s = (w, out) # rest"
  shows "handshake_ok (react w out (s\<lparr>microtasks := rest\<rparr>))"
proof -
  let ?p = "s\<lparr>microtasks := rest\<rparr>"
  have pop: "handshake_ok ?p"
    by (rule handshake_ok_shrink [OF ok]) (simp_all add: head subset_insertI)
  have tl: "initialize_resolved s" if "w = ToolsListAwait"
  proof -
    from head that have "(ToolsListAwait, out) \<in> set (microtasks s)" by simp
    with ok show ?thesis unfolding handshake_ok_def by blast
  qed
  have it: "initialize_resolved s" if "w = InitializeThen" "out = Resolved r" for r
  proof -
    from head that have "(InitializeThen, Resolved r) \<in> set (microtasks s)" by simp
    with ok show ?thesis unfolding handshake_ok_def by blast
  qed
  show ?thesis
  proof (cases w)
    case InitializeThen
    show ?thesis
    proof (cases out)
      case (Resolved r)
      let ?q = "s\<lparr>microtasks := rest, connectionTimeout := None\<rparr>"
      have q: "handshake_ok ?q"
        by (rule handshake_ok_shrink [OF pop]) simp_all
      have "initialize_resolved ?q"
        using it [OF InitializeThen Resolved] unfolding initialize_resolved_def by simp
      with q have "handshake_ok (sendRequest (str ''tools/list'') (JObj []) ToolsListAwait ?q)"
        by (intro handshake_ok_sendRequest) simp_all
      with InitializeThen Resolved show ?thesis by simp
    next
      case (Rejected e)
      have "handshake_ok (?p\<lparr>connectionTimeout := None,
          connectPromise := connectPromise ?p @ [Rejected e]\<rparr>)"
        using pop unfolding handshake_ok_def initialize_resolved_def by simp
      with InitializeThen Rejected show ?thesis by simp
    qed
  next
    case ToolsListAwait
    note f = react_ToolsListAwait_fields [of out ?p]
    have "initialize_resolved (react ToolsListAwait out ?p)"
      using tl [OF ToolsListAwait] f unfolding initialize_resolved_def by simp
    moreover have "\<forall>k. (k, InitializeThen) \<in> set (pendingRequests (react ToolsListAwait out ?p))
        \<longrightarrow> k = 1"
      using ok f unfolding handshake_ok_def by simp
    ultimately show ?thesis
      unfolding ToolsListAwait by (rule handshake_ok_resolved)
  next
    case CallToolAwait
    have "handshake_ok (?p\<lparr>delivered := delivered ?p @ [out]\<rparr>)"
      by (rule handshake_ok_shrink [OF pop]) simp_all
    with CallToolAwait show ?thesis by simp
  qed
qed

lemma handshake_ok_callback:
  assumes ok: "handshake_ok s"
  shows "handshake_ok (callback parse ev s)"
proof (cases ev)
  case (Data d)
  from ok have "handshake_ok (on_data parse d s)"
  proof (rule on_data_preserves [where Q = handshake_ok, rotated 3])
    show "handshake_ok (dispatch message s')" if "handshake_ok s'" for message s'
      using that by (rule handshake_ok_dispatch)
    show "handshake_ok (s'\<lparr>buffer := b\<rparr>)" if "handshake_ok s'" for s' b
      by (rule handshake_ok_shrink [OF that]) simp_all
    show "handshake_ok (s'\<lparr>framed := f\<rparr>)" if "handshake_ok s'" for s' f
      by (rule handshake_ok_shrink [OF that]) simp_all
  qed
  with Data show ?thesis by simp
next
  case (Stderr d)
  with ok show ?thesis by simp
next
  case Close
  have "handshake_ok (on_close s)"
    by (rule handshake_ok_shrink [OF ok]) (simp_all add: on_close_def)
  with Close show ?thesis by simp
next
  case (ProcessError e)
  have "handshake_ok (on_error e s)"
    by (rule handshake_ok_shrink [OF ok]) (auto simp: on_error_def)
  with ProcessError show ?thesis by simp
next
  case ConnectionTimer
  have "handshake_ok (connection_timeout (s\<lparr>connectionTimeout := None\<rparr>))"
    by (rule handshake_ok_shrink [OF ok])
      (auto simp: connection_timeout_def cleanup_def kill_def split: if_splits)
  with ok ConnectionTimer show ?thesis by (simp split: option.splits)
next
  case (RequestTimer i)
  have "handshake_ok (s\<lparr>requestTimers := AList.delete i (requestTimers s)\<rparr>)"
    by (rule handshake_ok_shrink [OF ok]) simp_all
  then have "handshake_ok
      (request_timeout i (s\<lparr>requestTimers := AList.delete i (requestTimers s)\<rparr>))"
    by (rule handshake_ok_request_timeout)
  with ok RequestTimer show ?thesis by (simp split: option.splits)
next
  case KillTimer
  have "handshake_ok (kill_timeout (s\<lparr>killTimer := None\<rparr>))"
    by (rule handshake_ok_shrink [OF ok]) (auto simp: kill_timeout_def kill_def split: if_splits)
  with ok KillTimer show ?thesis by (simp split: option.splits)
next
  case (CallTool n a)
  show ?thesis
  proof (cases "connected s")
    case True
    with ok have "initialize_resolved s" unfolding handshake_ok_def by blast
    with ok have "handshake_ok (sendRequest (str ''tools/call'')
        (JObj [(str ''name'', n), (str ''arguments'', default_to (JObj []) a)]) CallToolAwait s)"
      by (intro handshake_ok_sendRequest) simp_all
    with True CallTool show ?thesis by (simp add: callTool_def)
  next
    case False
    have "handshake_ok (s\<lparr>delivered := delivered s @
        [Rejected (Error (JStr (str ''MCP server not connected'')))]\<rparr>)"
      by (rule handshake_ok_shrink [OF ok]) simp_all
    with False CallTool show ?thesis by (simp add: callTool_def)
  qed
next
  case Disconnect
  have "handshake_ok (disconnect s)"
    by (rule handshake_ok_shrink [OF ok]) (auto simp: disconnect_def kill_def split: if_splits)
  with Disconnect show ?thesis by simp
next
  case (StdinState e)
  have "handshake_ok (s\<lparr>stdinError := e\<rparr>)"
    by (rule handshake_ok_shrink [OF ok]) simp_all
  with StdinState show ?thesis by simp
qed

lemma handshake_ok_session: "handshake_ok (session parse spawn_error evs)"
proof (rule session_preserves)
  show "handshake_ok (connect spawn_error new_MCPClient)"
    by (cases spawn_error)
      (simp_all add: connect_def handshake_ok_def initialize_resolved_def sendRequest_def
        settle_def new_MCPClient_def Let_def split: option.splits)
qed (simp_all add: handshake_ok_react handshake_ok_callback)

text \<open>
  C4, as the code has it.  \<^verbatim>\<open>connect\<close> sends the \<^verbatim>\<open>initialize\<close> call as request 1.
  Over any sequence of events of a session, \<open>connected\<close> is true, or \<^verbatim>\<open>connect\<close> has
  been resolved, only if request 1 was resolved: the session gets ready only after a
  successful \<^verbatim>\<open>initialize\<close>, and never once \<^verbatim>\<open>initialize\<close> has been rejected.  The
  reaction to a resolved \<^verbatim>\<open>initialize\<close> cancels the connection timer and issues the
  \<^verbatim>\<open>tools/list\<close> call (with a live input stream the request is written and registered
  under the next id); it does not yet set \<open>connected\<close>.  The \<^verbatim>\<open>tools/list\<close> call need
  not succeed: whether it is resolved or rejected, the reaction sets \<open>connected\<close> and
  resolves \<^verbatim>\<open>connect\<close>.  If it is rejected the failure is caught and the tool set is
  left as it was; if it is resolved the tool set becomes \<^verbatim>\<open>toolsResult.tools || []\<close>
  (and is left as it was when reading \<^verbatim>\<open>toolsResult.tools\<close> throws).  When
  \<^verbatim>\<open>initialize\<close> is rejected, the reaction leaves \<open>connected\<close> and the tool set as they
  are and rejects \<^verbatim>\<open>connect\<close> with the same error.
\<close>

theorem ready_after_initialize:
  "(connected (session parse spawn_error evs) \<or>
      Resolved JUndefined \<in> set (connectPromise (session parse spawn_error evs)) \<longrightarrow>
     (\<exists>res. (1, Resolved res) \<in> set (settled (session parse spawn_error evs)))) \<and>
   ((1, Rejected e') \<in> set (settled (session parse spawn_error evs)) \<longrightarrow>
     \<not> connected (session parse spawn_error evs) \<and>
     Resolved JUndefined \<notin> set (connectPromise (session parse spawn_error evs))) \<and>
   pendingRequests (connect None new_MCPClient) = [(1, InitializeThen)] \<and>
   stdin (connect None new_MCPClient) =
     [JObj [(str ''jsonrpc'', JStr (str ''2.0'')), (str ''id'', JNum 1),
            (str ''method'', JStr (str ''initialize'')), (str ''params'', initialize_params)]] \<and>
   react InitializeThen (Resolved res) s =
     sendRequest (str ''tools/list'') (JObj []) ToolsListAwait (s\<lparr>connectionTimeout := None\<rparr>) \<and>
   (process s \<and> stdinError s = None \<longrightarrow>
     stdin (react InitializeThen (Resolved res) s) = stdin s @
       [JObj [(str ''jsonrpc'', JStr (str ''2.0'')), (str ''id'', JNum (of_nat (requestId s))),
              (str ''method'', JStr (str ''tools/list'')), (str ''params'', JObj [])]] \<and>
     map_of (pendingRequests (react InitializeThen (Resolved res) s)) (requestId s) =
       Some ToolsListAwait) \<and>
   connected (react InitializeThen (Resolved res) s) = connected s \<and>
   connectPromise (react InitializeThen (Resolved res) s) = connectPromise s \<and>
   tools (react InitializeThen (Resolved res) s) = tools s \<and>
   connected (react ToolsListAwait out s) \<and>
   connectPromise (react ToolsListAwait out s) = connectPromise s @ [Resolved JUndefined] \<and>
   tools (react ToolsListAwait (Rejected e) s) = tools s \<and>
   tools (react ToolsListAwait (Resolved toolsResult) s) =
     (case get_prop (str ''tools'') toolsResult of
        Inl x \<Rightarrow> tools s
      | Inr t \<Rightarrow> js_or t (JArr [])) \<and>
   connected (react InitializeThen (Rejected e) s) = connected s \<and>
   connectPromise (react InitializeThen (Rejected e) s) = connectPromise s @ [Rejected e] \<and>
   tools (react InitializeThen (Rejected e) s) = tools s"
proof -
  let ?S = "session parse spawn_error evs"
  have ready: "connected ?S \<or> Resolved JUndefined \<in> set (connectPromise ?S) \<longrightarrow>
     (\<exists>res. (1, Resolved res) \<in> set (settled ?S))"
    using handshake_ok_session [of parse spawn_error evs]
    unfolding handshake_ok_def initialize_resolved_def by blast
  have "distinct (map fst (settled ?S))"
    using ids_ok_session [of parse spawn_error evs] by (simp add: ids_ok_def)
  then have once: "out1 = out2"
    if "(1, out1) \<in> set (settled ?S)" "(1, out2) \<in> set (settled ?S)" for out1 out2
    using that by (rule eq_key_imp_eq_value)
  have failed: "(1, Rejected e') \<in> set (settled ?S) \<longrightarrow>
     \<not> connected ?S \<and> Resolved JUndefined \<notin> set (connectPromise ?S)"
  proof
    assume r: "(1, Rejected e') \<in> set (settled ?S)"
    have "\<not> (\<exists>res. (1, Resolved res) \<in> set (settled ?S))"
    proof
      assume "\<exists>res. (1, Resolved res) \<in> set (settled ?S)"
      then obtain res where "(1, Resolved res) \<in> set (settled ?S)" by blast
      from once [OF r this] show False by simp
    qed
    with ready show "\<not> connected ?S \<and> Resolved JUndefined \<notin> set (connectPromise ?S)"
      by blast
  qed
  have first: "pendingRequests (connect None new_MCPClient) = [(1, InitializeThen)]"
    "stdin (connect None new_MCPClient) =
     [JObj [(str ''jsonrpc'', JStr (str ''2.0'')), (str ''id'', JNum 1),
            (str ''method'', JStr (str ''initialize'')), (str ''params'', initialize_params)]]"
    by (simp_all add: connect_def sendRequest_def new_MCPClient_def Let_def default_to_def
        initialize_params_def)
  have issue: "process s \<and> stdinError s = None \<longrightarrow>
     stdin (react InitializeThen (Resolved res) s) = stdin s @
       [JObj [(str ''jsonrpc'', JStr (str ''2.0'')), (str ''id'', JNum (of_nat (requestId s))),
              (str ''method'', JStr (str ''tools/list'')), (str ''params'', JObj [])]] \<and>
     map_of (pendingRequests (react InitializeThen (Resolved res) s)) (requestId s) =
       Some ToolsListAwait"
    by (simp add: sendRequest_def Let_def default_to_def update_conv')
  have after: "connected (react InitializeThen (Resolved res) s) = connected s"
    "connectPromise (react InitializeThen (Resolved res) s) = connectPromise s"
    "tools (react InitializeThen (Resolved res) s) = tools s"
    by (simp_all add: sendRequest_def settle_def Let_def split: option.splits)
  have listed: "connected (react ToolsListAwait out s) \<and>
      connectPromise (react ToolsListAwait out s) = connectPromise s @ [Resolved JUndefined]"
    using react_ToolsListAwait_fields [of out s] by simp
  have recorded: "tools (react ToolsListAwait (Resolved toolsResult) s) =
     (case get_prop (str ''tools'') toolsResult of
        Inl x \<Rightarrow> tools s
      | Inr t \<Rightarrow> js_or t (JArr []))"
    by (cases "get_prop (str ''tools'') toolsResult") (simp_all add: Let_def)
  from ready failed first issue after listed recorded show ?thesis by simp
qed

text \<open>
  A handshake in which both calls succeed (the parser is \<^verbatim>\<open>JSON.parse\<close> on the two
  lines that the server sends), a handshake in which \<^verbatim>\<open>initialize\<close> runs into its
  deadline, and the reaction to a resolved \<^verbatim>\<open>initialize\<close> in the state that
  \<^verbatim>\<open>connect\<close> leaves.
\<close>

theorem ready_after_initialize_witness:
  \<open>connected (session
      (map_of [(str ''{"id":1,"result":{}}'',
                JObj [(str ''id'', JNum 1), (str ''result'', JObj [])]),
               (str ''{"id":2,"result":{"tools":[]}}'',
                JObj [(str ''id'', JNum 2), (str ''result'', JObj [(str ''tools'', JArr [])])])])
      None
      [Data (ascii ''{"id":1,"result":{}}'' @ [0x0A]),
       Data (ascii ''{"id":2,"result":{"tools":[]}}'' @ [0x0A])]) \<and>
   (1, Resolved (JObj [])) \<in> set (settled (session
      (map_of [(str ''{"id":1,"result":{}}'',
                JObj [(str ''id'', JNum 1), (str ''result'', JObj [])]),
               (str ''{"id":2,"result":{"tools":[]}}'',
                JObj [(str ''id'', JNum 2), (str ''result'', JObj [(str ''tools'', JArr [])])])])
      None
      [Data (ascii ''{"id":1,"result":{}}'' @ [0x0A]),
       Data (ascii ''{"id":2,"result":{"tools":[]}}'' @ [0x0A])])) \<and>
   (1, Rejected (Error (JStr (str ''Request timeout'')))) \<in>
     set (settled (session (\<lambda>l. None) None [RequestTimer 1])) \<and>
   \<not> connected (session (\<lambda>l. None) None [RequestTimer 1]) \<and>
   process (session (\<lambda>l. None) None []) \<and>
   stdinError (session (\<lambda>l. None) None []) = None \<and>
   map_of (pendingRequests (react InitializeThen (Resolved (JObj []))
     (session (\<lambda>l. None) None []))) 2 = Some ToolsListAwait\<close>
proof -
  have a: \<open>connected (session
      (map_of [(str ''{"id":1,"result":{}}'',
                JObj [(str ''id'', JNum 1), (str ''result'', JObj [])]),
               (str ''{"id":2,"result":{"tools":[]}}'',
                JObj [(str ''id'', JNum 2), (str ''result'', JObj [(str ''tools'', JArr [])])])])
      None
      [Data (ascii ''{"id":1,"result":{}}'' @ [0x0A]),
       Data (ascii ''{"id":2,"result":{"tools":[]}}'' @ [0x0A])])\<close>
    by (simp add: eval_defs default_to_def)
  have b: \<open>settled (session
      (map_of [(str ''{"id":1,"result":{}}'',
                JObj [(str ''id'', JNum 1), (str ''result'', JObj [])]),
               (str ''{"id":2,"result":{"tools":[]}}'',
                JObj [(str ''id'', JNum 2), (str ''result'', JObj [(str ''tools'', JArr [])])])])
      None
      [Data (ascii ''{"id":1,"result":{}}'' @ [0x0A]),
       Data (ascii ''{"id":2,"result":{"tools":[]}}'' @ [0x0A])]) =
      [(1, Resolved (JObj [])), (2, Resolved (JObj [(str ''tools'', JArr [])]))]\<close>
    by (simp add: eval_defs default_to_def)
  have c: "settled (session (\<lambda>l. None) None [RequestTimer 1]) =
      [(1, Rejected (Error (JStr (str ''Request timeout''))))]"
    by (simp add: eval_defs default_to_def)
  have d: "process (session (\<lambda>l. None) None []) \<and>
      stdinError (session (\<lambda>l. None) None []) = None \<and>
      requestId (session (\<lambda>l. None) None []) = 2"
    by (simp add: eval_defs default_to_def)
  from a b c d show ?thesis
    using ready_after_initialize [of
      \<open>map_of [(str ''{"id":1,"result":{}}'',
                JObj [(str ''id'', JNum 1), (str ''result'', JObj [])]),
               (str ''{"id":2,"result":{"tools":[]}}'',
                JObj [(str ''id'', JNum 2), (str ''result'', JObj [(str ''tools'', JArr [])])])]\<close>
      None
      \<open>[Data (ascii ''{"id":1,"result":{}}'' @ [0x0A]),
       Data (ascii ''{"id":2,"result":{"tools":[]}}'' @ [0x0A])]\<close>]
      ready_after_initialize [of "\<lambda>l. None" None "[RequestTimer 1]"
        "Error (JStr (str ''Request timeout''))" "JObj []" "session (\<lambda>l. None) None []"]
    by simp
qed

text \<open>
  Where the claim as written fails.  The server answers \<^verbatim>\<open>initialize\<close> and never
  answers \<^verbatim>\<open>tools/list\<close>, whose deadline fires: request 2 is rejected, and yet
  \<open>connected\<close> is true and \<^verbatim>\<open>connect\<close> is resolved.
\<close>

theorem tools_list_failure_counterexample:
  \<open>connected (session
      (map_of [(str ''{"jsonrpc":"2.0","id":1,"result":{}}'',
                JObj [(str ''jsonrpc'', JStr (str ''2.0'')), (str ''id'', JNum 1),
                      (str ''result'', JObj [])])])
      None
      [Data (ascii ''{"jsonrpc":"2.0","id":1,"result":{}}'' @ [0x0A]), RequestTimer 2]) \<and>
   settled (session
      (map_of [(str ''{"jsonrpc":"2.0","id":1,"result":{}}'',
                JObj [(str ''jsonrpc'', JStr (str ''2.0'')), (str ''id'', JNum 1),
                      (str ''result'', JObj [])])])
      None
      [Data (ascii ''{"jsonrpc":"2.0","id":1,"result":{}}'' @ [0x0A]), RequestTimer 2]) =
     [(1, Resolved (JObj [])), (2, Rejected (Error (JStr (str ''Request timeout''))))] \<and>
   connectPromise (session
      (map_of [(str ''{"jsonrpc":"2.0","id":1,"result":{}}'',
                JObj [(str ''jsonrpc'', JStr (str ''2.0'')), (str ''id'', JNum 1),
                      (str ''result'', JObj [])])])
      None
      [Data (ascii ''{"jsonrpc":"2.0","id":1,"result":{}}'' @ [0x0A]), RequestTimer 2]) =
     [Resolved JUndefined]\<close>
  by (intro conjI; simp add: eval_defs)

section \<open>The line framer's output\<close>

lemma js_split_not_Nil [simp]: "js_split d xs \<noteq> []"
  by (induction xs) (simp_all split: list.splits)

lemma length_js_split: "length (js_split d xs) = Suc (count_list xs d)"
  by (induction xs) (auto split: list.splits)

lemma js_split_join:
  "concat (map (\<lambda>l. l @ [d]) (butlast (js_split d xs))) @ last (js_split d xs) = xs"
proof (induction xs)
  case Nil
  then show ?case by simp
next
  case (Cons c cs)
  obtain p ps where X: "js_split d cs = p # ps" by (cases "js_split d cs") simp_all
  with Cons show ?case by (cases ps) auto
qed

text \<open>Splitting a text that arrives in two parts: the last piece of the first part is kept
  and split again with the second part in front of it.\<close>

lemma js_split_append:
  "js_split d (xs @ ys) = butlast (js_split d xs) @ js_split d (last (js_split d xs) @ ys)"
proof (induction xs)
  case Nil
  then show ?case by simp
next
  case (Cons c cs)
  show ?case
  proof (cases "c = d")
    case True
    then show ?thesis using Cons by simp
  next
    case False
    obtain p ps where X: "js_split d cs = p # ps" by (cases "js_split d cs") simp_all
    obtain q qs where Y: "js_split d (p @ ys) = q # qs"
      by (cases "js_split d (p @ ys)") simp_all
    show ?thesis
    proof (cases ps)
      case Nil
      with X Y False Cons show ?thesis by simp
    next
      case (Cons r rs)
      with X False Cons.IH show ?thesis by simp
    qed
  qed
qed

lemma buffer_process_line [simp]: "buffer (process_line parse line s) = buffer s"
  by (simp add: process_line_def Let_def dispatch_untouched split: option.splits)

lemma framed_process_line:
  "framed (process_line parse line s) = framed s @ (if trim line \<noteq> [] then [line] else [])"
  by (simp add: process_line_def Let_def dispatch_untouched split: option.splits)

lemma buffer_foldl [simp]:
  "buffer (foldl (\<lambda>s' line. process_line parse line s') s ls) = buffer s"
  by (induction ls arbitrary: s) simp_all

lemma framed_foldl:
  "framed (foldl (\<lambda>s' line. process_line parse line s') s ls) =
     framed s @ filter (\<lambda>l. trim l \<noteq> []) ls"
  by (induction ls arbitrary: s) (simp_all add: framed_process_line)

lemma buffer_on_data:
  "buffer (on_data parse d s) = last (js_split nl (buffer s @ toString d))"
  by (simp add: on_data_def Let_def)

lemma framed_on_data:
  "framed (on_data parse d s) =
     framed s @ filter (\<lambda>l. trim l \<noteq> []) (butlast (js_split nl (buffer s @ toString d)))"
  by (simp add: on_data_def Let_def framed_foldl)

lemma text_sendRequest [simp]:
  "buffer (sendRequest m p w s) = buffer s" "framed (sendRequest m p w s) = framed s"
  by (simp_all add: sendRequest_def settle_def Let_def split: option.splits)

lemma text_react [simp]:
  "buffer (react w out s) = buffer s" "framed (react w out s) = framed s"
  by (cases w; cases out; simp add: Let_def split: sum.splits)+

lemma text_drain: "buffer (drain s) = buffer s \<and> framed (drain s) = framed s"
  by (rule drain_preserves [where Q = "\<lambda>s'. buffer s' = buffer s \<and> framed s' = framed s"])
    simp_all

lemma text_callback_other:
  "(\<forall>d. ev \<noteq> Data d) \<Longrightarrow>
   buffer (callback parse ev s) = buffer s \<and> framed (callback parse ev s) = framed s"
  by (cases ev)
    (simp_all add: on_close_def on_error_def connection_timeout_def cleanup_def kill_def
      kill_timeout_def disconnect_def callTool_def request_timeout_def settle_def
      split: option.splits)

lemma text_step_Data:
  "buffer (step parse (Data d) s) = last (js_split nl (buffer s @ toString d)) \<and>
   framed (step parse (Data d) s) =
     framed s @ filter (\<lambda>l. trim l \<noteq> []) (butlast (js_split nl (buffer s @ toString d)))"
  using text_drain [of "on_data parse d s"]
  by (simp add: step_def buffer_on_data framed_on_data)

lemma text_step_other:
  "(\<forall>d. ev \<noteq> Data d) \<Longrightarrow>
   buffer (step parse ev s) = buffer s \<and> framed (step parse ev s) = framed s"
  using text_drain [of "callback parse ev s"] text_callback_other [of ev parse s]
  by (simp add: step_def)

lemma received_append: "received (evs @ evs') = received evs @ received evs'"
  by (induction evs rule: received.induct) simp_all

lemma text_session:
  "buffer (session parse spawn_error evs) = last (js_split nl (received evs)) \<and>
   framed (session parse spawn_error evs) =
     filter (\<lambda>l. trim l \<noteq> []) (butlast (js_split nl (received evs)))"
proof (induction evs rule: rev_induct)
  case Nil
  have "buffer (connect spawn_error new_MCPClient) = [] \<and>
        framed (connect spawn_error new_MCPClient) = []"
    by (cases spawn_error) (simp_all add: connect_def new_MCPClient_def)
  then show ?case
    using text_drain [of "connect spawn_error new_MCPClient"]
    by (simp add: session_def run_def)
next
  case (snoc ev evs)
  let ?s = "session parse spawn_error evs"
  have s: "session parse spawn_error (evs @ [ev]) = step parse ev ?s"
    by (simp add: session_def run_snoc)
  show ?case
  proof (cases "\<exists>d. ev = Data d")
    case True
    then obtain d where ev: "ev = Data d" by blast
    have split: "js_split nl (received evs @ toString d) =
        butlast (js_split nl (received evs)) @ js_split nl (buffer ?s @ toString d)"
      using js_split_append [of nl "received evs" "toString d"] snoc by simp
    have ne: "js_split nl (buffer ?s @ toString d) \<noteq> []" by simp
    have s': "session parse spawn_error (evs @ [Data d]) = step parse (Data d) ?s"
      using s ev by simp
    show ?thesis
      unfolding ev s'
      using snoc text_step_Data [of parse d ?s] ne
      by (simp add: received_append split butlast_append last_append)
  next
    case False
    then have "received [ev] = []" by (cases ev) simp_all
    with False snoc text_step_other [of ev parse ?s] show ?thesis
      unfolding s by (simp add: received_append)
  qed
qed

text \<open>
  C6, as the code has it.  Take the chunks that a session has received, each decoded by
  \<^verbatim>\<open>toString\<close>, and join them: if this text has \<open>N\<close> newlines, exactly \<open>N\<close> lines
  have been split off, they are the pieces of the text between the newlines in their
  order, the pieces with a newline after each and the buffer at the end give the text back,
  and the buffer holds the text after the last newline.  Of these lines, the ones that are
  empty or hold white space only are skipped; the others, and only they, have been handed
  to \<^verbatim>\<open>JSON.parse\<close>, in their order.  (How the decoded text relates to the bytes of a
  chunk that ends inside a character is the matter of C7.)
\<close>

theorem line_framer:
  "buffer (session parse spawn_error evs) = last (js_split nl (received evs)) \<and>
   framed (session parse spawn_error evs) =
     filter (\<lambda>l. trim l \<noteq> []) (butlast (js_split nl (received evs))) \<and>
   length (butlast (js_split nl (received evs))) = count_list (received evs) nl \<and>
   concat (map (\<lambda>l. l @ [nl]) (butlast (js_split nl (received evs)))) @
     last (js_split nl (received evs)) = received evs"
  using text_session [of parse spawn_error evs]
  by (simp add: length_js_split js_split_join)

text \<open>
  Where the claim as written fails.  One chunk with three newlines, the second line
  empty: two lines are handed on, not three.
\<close>

theorem blank_lines_counterexample:
  "count_list (received [Data (ascii ''{}'' @ [0x0A, 0x0A] @ ascii ''{}'' @ [0x0A])]) nl = 3 \<and>
   framed (session (\<lambda>l. None) None [Data (ascii ''{}'' @ [0x0A, 0x0A] @ ascii ''{}'' @ [0x0A])]) =
     [str ''{}'', str ''{}''] \<and>
   length (framed (session (\<lambda>l. None) None
     [Data (ascii ''{}'' @ [0x0A, 0x0A] @ ascii ''{}'' @ [0x0A])])) = 2"
  by (simp add: text_session decode_defs nl_def trim_def is_space_def)

text \<open>
  Decoding chunk by chunk.  After a byte the decoder needs no further byte only in its
  initial state, so a chunk that does not end inside a character leaves the decoder as it
  found it, and the next chunk is decoded as it would be in the whole text.
\<close>

lemma decode_lead_idle:
  "bytes_needed (snd (decode_lead b)) = 0 \<Longrightarrow> snd (decode_lead b) = decoder_init"
  by (auto simp: decode_lead_def decoder_init_def split: if_splits)

lemma decode_byte_idle:
  "bytes_needed (snd (decode_byte st b)) = 0 \<Longrightarrow> snd (decode_byte st b) = decoder_init"
  by (auto simp: decode_byte_def Let_def decode_lead_idle decoder_init_def split: if_splits)

lemma decoder_after_snoc:
  "decoder_after st (bs @ [b]) = snd (decode_byte (decoder_after st bs) (unat b))"
  by (induction bs arbitrary: st) simp_all

lemma decoder_after_idle:
  "bytes_needed (decoder_after decoder_init bs) = 0 \<Longrightarrow> decoder_after decoder_init bs = decoder_init"
  by (cases bs rule: rev_cases) (simp_all add: decoder_after_snoc decode_byte_idle)

lemma decode_from_append:
  "bytes_needed (decoder_after st a) = 0 \<Longrightarrow>
   decode_from st (a @ b) = decode_from st a @ decode_from (decoder_after st a) b"
  by (induction a arbitrary: st) simp_all

lemma toString_append:
  assumes "bytes_needed (decoder_after decoder_init a) = 0"
  shows "toString (a @ b) = toString a @ toString b"
  using decode_from_append [OF assms, of b] decoder_after_idle [OF assms]
  by (simp add: toString_def)

text \<open>
  A text that arrives in two chunks gives the lines and the buffer of the text in one
  chunk when the cut is between two characters.
\<close>

lemma reassembly_of_text:
  assumes "bytes_needed (decoder_after decoder_init a) = 0"
  shows "framed (session parse spawn_error [Data a, Data b]) =
           framed (session parse spawn_error [Data (a @ b)]) \<and>
         buffer (session parse spawn_error [Data a, Data b]) =
           buffer (session parse spawn_error [Data (a @ b)])"
  using toString_append [OF assms, of b] by (simp add: text_session)

text \<open>
  C7.  The claim fails on the code when the cut falls inside a character.  The line
  \<^verbatim>\<open>{"id":1,"result":"?"}\<close>, where \<^verbatim>\<open>?\<close> is the letter U+00E9 (e with an acute
  accent), is cut between the two bytes \<open>C3 A9\<close> of the letter: each
  chunk is decoded on its own, each half of the letter becomes U+FFFD, and the line handed
  to \<^verbatim>\<open>JSON.parse\<close> is not the line that the unsplit text gives.
\<close>

theorem split_character_corrupts:
  \<open>framed (session parse None
      [Data (ascii ''{"id":1,"result":"'' @ [0xC3]),
       Data ([0xA9] @ ascii ''"}'' @ [0x0A])]) =
     [str ''{"id":1,"result":"'' @ [0xFFFD, 0xFFFD] @ str ''"}''] \<and>
   framed (session parse None
      [Data (ascii ''{"id":1,"result":"'' @ [0xC3] @ [0xA9] @ ascii ''"}'' @ [0x0A])]) =
     [str ''{"id":1,"result":"'' @ [0xE9] @ str ''"}'']\<close>
  by (intro conjI; simp add: text_session decode_defs nl_def trim_def is_space_def)

section \<open>The exit of the child process\<close>

text \<open>
  What can settle a request that is pending: an event that newly settles it is a chunk of
  data (a response) or the request's own timer, which rejects it with the timeout error.
  The requests settled while the queue of reactions is run are new ones, whose write has
  failed.
\<close>

lemma settled_sendRequest:
  "requestId s \<le> requestId (sendRequest method params w s) \<and>
   (settled (sendRequest method params w s) = settled s \<or>
    (\<exists>e. settled (sendRequest method params w s) = settled s @ [(requestId s, Rejected e)]))"
  by (simp add: sendRequest_def settle_def Let_def split: option.splits)

lemma requestId_on_data: "requestId (on_data parse d s) = requestId s"
  by (rule on_data_preserves [where Q = "\<lambda>s'. requestId s' = requestId s"])
    (simp_all add: dispatch_untouched)

lemma requestId_callback: "requestId s \<le> requestId (callback parse ev s)"
proof (cases ev)
  case (CallTool n a)
  then show ?thesis
    using settled_sendRequest [of s "str ''tools/call''"
        "JObj [(str ''name'', n), (str ''arguments'', default_to (JObj []) a)]" CallToolAwait]
    by (simp add: callTool_def)
qed (simp_all add: requestId_on_data on_close_def on_error_def connection_timeout_def cleanup_def
      kill_def kill_timeout_def disconnect_def request_timeout_def settle_def
      split: option.splits)

lemma settled_callback:
  assumes "(i, out) \<in> set (settled (callback parse ev s))"
  shows "(i, out) \<in> set (settled s) \<or> requestId s \<le> i \<or> (\<exists>d. ev = Data d) \<or>
         (ev = RequestTimer i \<and> out = Rejected (Error (JStr (str ''Request timeout''))))"
proof (cases ev)
  case (Data d)
  then show ?thesis by simp
next
  case (RequestTimer j)
  with assms show ?thesis
    by (auto simp: request_timeout_def settle_def split: option.splits)
next
  case (CallTool n a)
  with assms show ?thesis
    using settled_sendRequest [of s "str ''tools/call''"
        "JObj [(str ''name'', n), (str ''arguments'', default_to (JObj []) a)]" CallToolAwait]
    by (auto simp: callTool_def split: if_splits)
qed (use assms in \<open>simp_all add: on_close_def on_error_def connection_timeout_def cleanup_def
      kill_def kill_timeout_def disconnect_def split: option.splits if_splits\<close>)

lemma settled_react:
  "requestId s \<le> requestId (react w out s) \<and>
   (\<forall>x \<in> set (settled (react w out s)). x \<in> set (settled s) \<or> requestId s \<le> fst x)"
proof (cases w)
  case InitializeThen
  show ?thesis
  proof (cases out)
    case (Resolved r)
    with InitializeThen show ?thesis
      using settled_sendRequest [of "s\<lparr>connectionTimeout := None\<rparr>" "str ''tools/list''"
          "JObj []" ToolsListAwait]
      by auto
  next
    case (Rejected e)
    with InitializeThen show ?thesis by simp
  qed
next
  case ToolsListAwait
  then show ?thesis
    using react_ToolsListAwait_fields [of out s]
    by (cases out) (simp_all add: Let_def split: sum.splits)
next
  case CallToolAwait
  then show ?thesis by simp
qed

lemma settled_drain:
  "requestId s \<le> requestId (drain s) \<and>
   (\<forall>x \<in> set (settled (drain s)). x \<in> set (settled s) \<or> requestId s \<le> fst x)"
proof (rule drain_preserves [where Q = "\<lambda>s'. requestId s \<le> requestId s' \<and>
   (\<forall>x \<in> set (settled s'). x \<in> set (settled s) \<or> requestId s \<le> fst x)"])
  fix s' :: MCPClient and w out rest
  assume q: "requestId s \<le> requestId s' \<and>
   (\<forall>x \<in> set (settled s'). x \<in> set (settled s) \<or> requestId s \<le> fst x)"
  let ?p = "s'\<lparr>microtasks := rest\<rparr>"
  from settled_react [of ?p w out]
  have r: "requestId s' \<le> requestId (react w out ?p)"
    "\<forall>x \<in> set (settled (react w out ?p)). x \<in> set (settled s') \<or> requestId s' \<le> fst x"
    by simp_all
  show "requestId s \<le> requestId (react w out ?p) \<and>
   (\<forall>x \<in> set (settled (react w out ?p)). x \<in> set (settled s) \<or> requestId s \<le> fst x)"
  proof (intro conjI ballI)
    show "requestId s \<le> requestId (react w out ?p)" using q r(1) by simp
    fix x assume "x \<in> set (settled (react w out ?p))"
    with r(2) have "x \<in> set (settled s') \<or> requestId s' \<le> fst x" by blast
    with q show "x \<in> set (settled s) \<or> requestId s \<le> fst x" by force
  qed
qed simp

lemma settled_step:
  assumes new: "(i, out) \<in> set (settled (step parse ev s))" "(i, out) \<notin> set (settled s)"
    and pending: "i \<in> fst ` set (pendingRequests s)"
    and ok: "ids_ok s"
  shows "(\<exists>d. ev = Data d) \<or>
         (ev = RequestTimer i \<and> out = Rejected (Error (JStr (str ''Request timeout''))))"
proof -
  let ?c = "callback parse ev s"
  from ok pending have old: "i < requestId s" by (auto simp: ids_ok_def)
  from settled_drain [of ?c] new(1)
  have "(i, out) \<in> set (settled ?c) \<or> requestId ?c \<le> i"
    unfolding step_def by force
  moreover have "requestId s \<le> requestId ?c" by (rule requestId_callback)
  ultimately have "(i, out) \<in> set (settled ?c)" using old by simp
  from settled_callback [OF this] new(2) old show ?thesis by simp
qed

text \<open>
  C8, as the code has it.  The handler of the \<^verbatim>\<open>close\<close> event sets \<open>connected\<close> to
  false and cancels the connection timer of \<^verbatim>\<open>connect\<close>; nothing else changes.  In
  particular the table of pending requests, the request timers and the log of settlements
  are as they were: the exit settles no request, and each pending request keeps its entry
  and its timer.  At any later moment, a request that is pending is settled only by a
  chunk of data from the child or by its own timer, with the timeout error.
\<close>

theorem close_only_marks_disconnected:
  "step parse Close (session parse spawn_error evs) =
     (session parse spawn_error evs)\<lparr>connected := False, connectionTimeout := None\<rparr> \<and>
   pendingRequests (step parse Close (session parse spawn_error evs)) =
     pendingRequests (session parse spawn_error evs) \<and>
   requestTimers (step parse Close (session parse spawn_error evs)) =
     requestTimers (session parse spawn_error evs) \<and>
   settled (step parse Close (session parse spawn_error evs)) =
     settled (session parse spawn_error evs) \<and>
   (i \<in> fst ` set (pendingRequests (session parse spawn_error (evs @ Close # evs'))) \<and>
    (i, out) \<in> set (settled (step parse ev (session parse spawn_error (evs @ Close # evs')))) \<and>
    (i, out) \<notin> set (settled (session parse spawn_error (evs @ Close # evs'))) \<longrightarrow>
      (\<exists>d. ev = Data d) \<or>
      (ev = RequestTimer i \<and> out = Rejected (Error (JStr (str ''Request timeout'')))))"
proof -
  have "step parse Close (session parse spawn_error evs) =
     (session parse spawn_error evs)\<lparr>connected := False, connectionTimeout := None\<rparr>"
    by (simp add: step_def on_close_def drain_Nil microtasks_session)
  then show ?thesis
    using settled_step [of i out parse ev "session parse spawn_error (evs @ Close # evs')"]
      ids_ok_session [of parse spawn_error "evs @ Close # evs'"]
    by auto
qed

text \<open>The child exits during the handshake; later the timer of request 1 fires.\<close>

theorem close_only_marks_disconnected_witness:
  "1 \<in> fst ` set (pendingRequests (session (\<lambda>l. None) None [Close])) \<and>
   (1, Rejected (Error (JStr (str ''Request timeout'')))) \<in>
     set (settled (step (\<lambda>l. None) (RequestTimer 1) (session (\<lambda>l. None) None [Close]))) \<and>
   (1, Rejected (Error (JStr (str ''Request timeout'')))) \<notin>
     set (settled (session (\<lambda>l. None) None [Close])) \<and>
   pendingRequests (step (\<lambda>l. None) Close (session (\<lambda>l. None) None [])) = [(1, InitializeThen)]"
  using close_only_marks_disconnected [of "\<lambda>l. None" None "[]" 1 "[]"
      "Rejected (Error (JStr (str ''Request timeout'')))" "RequestTimer 1"]
  by (simp add: run_defs on_close_def)

text \<open>
  Where the claim as written fails.  The child exits during the handshake: the connection
  timer, armed before, is cancelled, so the state is not the old one with only
  \<open>connected\<close> changed.
\<close>

theorem close_clears_connection_timer_counterexample:
  "connectionTimeout (session (\<lambda>l. None) None []) = Some 60000 \<and>
   connectionTimeout (step (\<lambda>l. None) Close (session (\<lambda>l. None) None [])) = None \<and>
   step (\<lambda>l. None) Close (session (\<lambda>l. None) None []) \<noteq>
     (session (\<lambda>l. None) None [])\<lparr>connected := False\<rparr>"
proof -
  have a: "connectionTimeout (session (\<lambda>l. None) None []) = Some 60000"
    by (simp add: run_defs)
  have b: "connectionTimeout (step (\<lambda>l. None) Close (session (\<lambda>l. None) None [])) = None"
    by (simp add: step_def on_close_def drain_Nil microtasks_session)
  have "connectionTimeout ((session (\<lambda>l. None) None [])\<lparr>connected := False\<rparr>) = Some 60000"
    using a by simp
  with b have "step (\<lambda>l. None) Close (session (\<lambda>l. None) None []) \<noteq>
     (session (\<lambda>l. None) None [])\<lparr>connected := False\<rparr>"
    by (metis option.distinct(1))
  with a b show ?thesis by simp
qed

section \<open>Calling a tool before the session is ready\<close>

text \<open>
  C9.  When \<open>connected\<close> is false (as it is while the handshake is still running),
  \<^verbatim>\<open>callTool\<close> rejects at once with the error \<^verbatim>\<open>MCP server not connected\<close> and does
  nothing else: nothing is written to the child's input stream, the table of pending
  requests, the timers and the counter are as they were.
\<close>

theorem callTool_not_connected:
  "\<not> connected s \<Longrightarrow>
     callTool name arguments_obj s =
       s\<lparr>delivered := delivered s @
            [Rejected (Error (JStr (str ''MCP server not connected'')))]\<rparr> \<and>
     stdin (callTool name arguments_obj s) = stdin s \<and>
     pendingRequests (callTool name arguments_obj s) = pendingRequests s \<and>
     requestTimers (callTool name arguments_obj s) = requestTimers s \<and>
     requestId (callTool name arguments_obj s) = requestId s"
  by (simp add: callTool_def)

theorem callTool_not_connected_witness:
  "\<not> connected (connect None new_MCPClient) \<and>
   delivered (callTool (JStr (str ''list-events'')) (JObj []) (connect None new_MCPClient)) =
     [Rejected (Error (JStr (str ''MCP server not connected'')))] \<and>
   stdin (callTool (JStr (str ''list-events'')) (JObj []) (connect None new_MCPClient)) =
     stdin (connect None new_MCPClient) \<and>
   pendingRequests (callTool (JStr (str ''list-events'')) (JObj []) (connect None new_MCPClient)) =
     [(1, InitializeThen)]"
  using callTool_not_connected [of "connect None new_MCPClient" "JStr (str ''list-events'')" "JObj []"]
  by (simp add: connect_def sendRequest_def new_MCPClient_def Let_def)

section \<open>A write that throws\<close>

text \<open>
  C10.  If the write to the child's input stream throws, \<^verbatim>\<open>sendRequest\<close> leaves no
  entry under the id it has just taken, leaves every other entry alone, rejects the
  caller's promise with the error that was thrown, and nothing reaches the stream.
\<close>

theorem sendRequest_write_failure:
  "process s \<Longrightarrow> stdinError s = Some e \<Longrightarrow>
     map_of (pendingRequests (sendRequest method params w s)) (requestId s) = None \<and>
     (\<forall>k. k \<noteq> requestId s \<longrightarrow>
        map_of (pendingRequests (sendRequest method params w s)) k = map_of (pendingRequests s) k) \<and>
     settled (sendRequest method params w s) = settled s @ [(requestId s, Rejected e)] \<and>
     microtasks (sendRequest method params w s) = microtasks s @ [(w, Rejected e)] \<and>
     stdin (sendRequest method params w s) = stdin s"
  by (simp add: sendRequest_def settle_def Let_def delete_conv' update_conv')

text \<open>
  The input stream breaks during the handshake, and the next request is sent.
\<close>

theorem sendRequest_write_failure_witness:
  "process (session (\<lambda>l. None) None [StdinState (Some (SystemError (str ''EPIPE'')))]) \<and>
   stdinError (session (\<lambda>l. None) None [StdinState (Some (SystemError (str ''EPIPE'')))]) =
     Some (SystemError (str ''EPIPE'')) \<and>
   requestId (session (\<lambda>l. None) None [StdinState (Some (SystemError (str ''EPIPE'')))]) = 2 \<and>
   pendingRequests (sendRequest (str ''tools/list'') (JObj []) ToolsListAwait
     (session (\<lambda>l. None) None [StdinState (Some (SystemError (str ''EPIPE'')))])) =
     [(1, InitializeThen)] \<and>
   settled (sendRequest (str ''tools/list'') (JObj []) ToolsListAwait
     (session (\<lambda>l. None) None [StdinState (Some (SystemError (str ''EPIPE'')))])) =
     [(2, Rejected (SystemError (str ''EPIPE'')))]"
  using sendRequest_write_failure [of
      "session (\<lambda>l. None) None [StdinState (Some (SystemError (str ''EPIPE'')))]"
      "SystemError (str ''EPIPE'')" "str ''tools/list''" "JObj []" ToolsListAwait]
  by (simp add: run_defs)

end
